theory Spec2Isabelle
  imports Main "HOL-Library.Sublist" "HOL-Library.Multiset"
begin

section \<open>Record model (internal/models/log.go)\<close>

text \<open>
  \<open>LogLevel\<close> is an integer enumeration declared with \<open>iota\<close>; comparisons between
  levels in the program are comparisons of these integers, given by \<open>level_val\<close>.
\<close>

datatype LogLevel = DEBUG | INFO | WARN | ERROR | FATAL | UNKNOWN

fun level_val :: "LogLevel \<Rightarrow> int" where
  "level_val DEBUG = 0"
| "level_val INFO = 1"
| "level_val WARN = 2"
| "level_val ERROR = 3"
| "level_val FATAL = 4"
| "level_val UNKNOWN = 5"

definition ParseLogLevel :: "string \<Rightarrow> LogLevel" where
  "ParseLogLevel s =
     (if s = ''DEBUG'' then DEBUG
      else if s = ''INFO'' then INFO
      else if s = ''WARN'' \<or> s = ''WARNING'' then WARN
      else if s = ''ERROR'' then ERROR
      else if s = ''FATAL'' then FATAL
      else UNKNOWN)"

text \<open>
  A \<open>time.Time\<close> is modelled by the instant it denotes: the number of nanoseconds elapsed
  since the zero time (January 1, year 1, 00:00:00 UTC).  \<open>IsZero\<close>, \<open>Before\<close> and
  \<open>After\<close> only look at the instant.
\<close>

type_synonym time = int

definition IsZero :: "time \<Rightarrow> bool" where
  "IsZero t = (t = 0)"

definition Before :: "time \<Rightarrow> time \<Rightarrow> bool" where
  "Before t u = (t < u)"

definition After :: "time \<Rightarrow> time \<Rightarrow> bool" where
  "After t u = (t > u)"

record LogEntry =
  Timestamp :: time
  Level :: LogLevel
  Message :: string
  Source :: string
  Raw :: string

text \<open>\<open>findSubstring\<close>: the loop over \<open>i = 0 .. len(s) - len(substr)\<close>, as a recursion
  on the remaining suffix of \<open>s\<close>; the loop stops when fewer than \<open>len(substr)\<close>
  bytes remain.\<close>

fun findSubstring :: "string \<Rightarrow> string \<Rightarrow> bool" where
  "findSubstring s substr =
     (if length s < length substr then False
      else if take (length substr) s = substr then True
      else (case s of [] \<Rightarrow> False | _ # s' \<Rightarrow> findSubstring s' substr))"

definition contains :: "string \<Rightarrow> string \<Rightarrow> bool" where
  "contains s substr =
     (length s \<ge> length substr \<and> (s = substr \<or> findSubstring s substr))"

definition MatchesLevel :: "LogEntry \<Rightarrow> LogLevel \<Rightarrow> bool" where
  "MatchesLevel e l = (Level e = l)"

definition MatchesPattern :: "LogEntry \<Rightarrow> string \<Rightarrow> bool" where
  "MatchesPattern e pattern =
     (if pattern = [] then True
      else contains (Message e) pattern \<or> contains (Raw e) pattern)"

section \<open>Statistics (internal/models/stats.go)\<close>

record Statistics =
  TotalEntries :: int
  LevelCounts :: "LogLevel \<rightharpoonup> int"
  PatternCounts :: "string \<rightharpoonup> int"
  SourceCounts :: "string \<rightharpoonup> int"
  FirstTimestamp :: time
  LastTimestamp :: time
  ProcessingTime :: int
  FilesProcessed :: int
  BytesProcessed :: int

definition NewStatistics :: Statistics where
  "NewStatistics =
     \<lparr> TotalEntries = 0, LevelCounts = Map.empty, PatternCounts = Map.empty,
       SourceCounts = Map.empty, FirstTimestamp = 0, LastTimestamp = 0,
       ProcessingTime = 0, FilesProcessed = 0, BytesProcessed = 0 \<rparr>"

text \<open>Reading a Go map at a missing key yields the zero value; \<open>m[k]++\<close> reads and
  stores.\<close>

definition lookup0 :: "('k \<rightharpoonup> int) \<Rightarrow> 'k \<Rightarrow> int" where
  "lookup0 m k = (case m k of None \<Rightarrow> 0 | Some n \<Rightarrow> n)"

definition incr :: "('k \<rightharpoonup> int) \<Rightarrow> 'k \<Rightarrow> ('k \<rightharpoonup> int)" where
  "incr m k = m(k \<mapsto> lookup0 m k + 1)"

definition AddEntry :: "Statistics \<Rightarrow> LogEntry \<Rightarrow> Statistics" where
  "AddEntry s entry =
     (let s1 = s\<lparr> TotalEntries := TotalEntries s + 1,
                   LevelCounts := incr (LevelCounts s) (Level entry),
                   SourceCounts := incr (SourceCounts s) (Source entry) \<rparr>;
          s2 = (if IsZero (FirstTimestamp s1) \<or> Before (Timestamp entry) (FirstTimestamp s1)
                then s1\<lparr> FirstTimestamp := Timestamp entry \<rparr> else s1)
      in (if After (Timestamp entry) (LastTimestamp s2)
          then s2\<lparr> LastTimestamp := Timestamp entry \<rparr> else s2))"

definition IncrementPattern :: "Statistics \<Rightarrow> string \<Rightarrow> Statistics" where
  "IncrementPattern s pattern = s\<lparr> PatternCounts := incr (PatternCounts s) pattern \<rparr>"

text \<open>\<open>BytesProcessed\<close> is an \<open>int64\<close>: its addition wraps around.\<close>

definition wrap64 :: "int \<Rightarrow> int" where
  "wrap64 x = (x + 2 ^ 63) mod 2 ^ 64 - 2 ^ 63"

definition AddFile :: "Statistics \<Rightarrow> int \<Rightarrow> Statistics" where
  "AddFile s bytesRead =
     s\<lparr> FilesProcessed := FilesProcessed s + 1,
        BytesProcessed := wrap64 (BytesProcessed s + bytesRead) \<rparr>"

definition SetProcessingTime :: "Statistics \<Rightarrow> int \<Rightarrow> Statistics" where
  "SetProcessingTime s d = s\<lparr> ProcessingTime := d \<rparr>"

section \<open>Aggregator\<close>

text \<open>
  Every method of the aggregator runs under the aggregator's mutex, so a concurrent
  execution is a sequence of whole method calls; the state is passed explicitly.
\<close>

record Aggregator =
  entries :: "LogEntry list"
  stats :: Statistics

definition NewAggregator :: Aggregator where
  "NewAggregator = \<lparr> entries = [], stats = NewStatistics \<rparr>"

definition Add :: "Aggregator \<Rightarrow> LogEntry \<Rightarrow> Aggregator" where
  "Add a entry = \<lparr> entries = entries a @ [entry], stats = AddEntry (stats a) entry \<rparr>"

definition AddBatch :: "Aggregator \<Rightarrow> LogEntry list \<Rightarrow> Aggregator" where
  "AddBatch a es = fold (\<lambda>entry a'. Add a' entry) es a"

definition GetEntries :: "Aggregator \<Rightarrow> LogEntry list" where
  "GetEntries a = entries a"

definition GetStats :: "Aggregator \<Rightarrow> Statistics" where
  "GetStats a = stats a"

definition Count :: "Aggregator \<Rightarrow> int" where
  "Count a = int (length (entries a))"

definition Clear :: "Aggregator \<Rightarrow> Aggregator" where
  "Clear a = \<lparr> entries = [], stats = NewStatistics \<rparr>"

text \<open>A call made by some contributor, and the effect of a sequence of calls in the
  order in which they acquire the lock.\<close>

datatype call = CallAdd LogEntry | CallAddBatch "LogEntry list"

fun do_call :: "Aggregator \<Rightarrow> call \<Rightarrow> Aggregator" where
  "do_call a (CallAdd e) = Add a e"
| "do_call a (CallAddBatch es) = AddBatch a es"

definition run_calls :: "call list \<Rightarrow> Aggregator \<Rightarrow> Aggregator" where
  "run_calls cs a = fold (\<lambda>c a'. do_call a' c) cs a"

fun call_entries :: "call \<Rightarrow> LogEntry list" where
  "call_entries (CallAdd e) = [e]"
| "call_entries (CallAddBatch es) = es"

definition added :: "call list \<Rightarrow> LogEntry list" where
  "added cs = concat (map call_entries cs)"

definition count_where :: "('a \<Rightarrow> bool) \<Rightarrow> 'a list \<Rightarrow> int" where
  "count_where P xs = int (length (filter P xs))"

definition sum_counts :: "('k \<rightharpoonup> int) \<Rightarrow> int" where
  "sum_counts m = (\<Sum>k\<in>dom m. lookup0 m k)"

section \<open>Library functions used by the parsers\<close>

text \<open>
  Go strings are byte sequences, as a rule the UTF-8 encoding of text; a \<open>string\<close>
  here is the list of those bytes.  What the program uses of the Go library and is not
  written out below is handed to the program as a \<open>library\<close>: the decoder
  \<open>json.Unmarshal\<close> for the structure of a log line (\<open>None\<close> when decoding fails),
  \<open>time.Parse\<close> for the two RFC 3339 layouts, and \<open>strings.ToUpper\<close> on strings
  that are not pure ASCII, which goes through the Unicode case tables.
\<close>

record jsonLogEntry =
  j_Timestamp :: string
  j_Time :: string
  j_Level :: string
  j_Message :: string
  j_Msg :: string

record library =
  unmarshal :: "string \<Rightarrow> jsonLogEntry option"
  rfc3339 :: "string \<Rightarrow> time option"
  rfc3339nano :: "string \<Rightarrow> time option"
  unicode_ToUpper :: "string \<Rightarrow> string"

definition HasPrefix :: "string \<Rightarrow> string \<Rightarrow> bool" where
  "HasPrefix s p = (length s \<ge> length p \<and> take (length p) s = p)"

definition HasSuffix :: "string \<Rightarrow> string \<Rightarrow> bool" where
  "HasSuffix s p = (length s \<ge> length p \<and> drop (length s - length p) s = p)"

text \<open>\<open>strings.Contains\<close>: some position of \<open>s\<close> starts an occurrence of \<open>sub\<close>.\<close>

fun Contains :: "string \<Rightarrow> string \<Rightarrow> bool" where
  "Contains s sub =
     (if take (length sub) s = sub then True
      else (case s of [] \<Rightarrow> False | _ # s' \<Rightarrow> Contains s' sub))"

text \<open>
  \<open>strings.TrimSpace\<close> removes the leading and the trailing white space, as Unicode
  defines it (\<open>unicode.IsSpace\<close>): the ASCII characters tab, line feed, vertical tab,
  form feed, carriage return and space, and U+0085, U+00A0, U+1680, U+2000 to U+200A,
  U+2028, U+2029, U+202F, U+205F and U+3000.  \<open>space_runes\<close> lists their UTF-8
  encodings.  A byte that does not begin (or, from the right, end) one of these
  encodings stops the trimming, as a character that is not white space or a byte that
  is not valid UTF-8 does in Go.
\<close>

definition space_runes :: "string list" where
  "space_runes =
     [[CHR 0x09], [CHR 0x0A], [CHR 0x0B], [CHR 0x0C], [CHR 0x0D], [CHR 0x20],
      [CHR 0xC2, CHR 0x85], [CHR 0xC2, CHR 0xA0], [CHR 0xE1, CHR 0x9A, CHR 0x80],
      [CHR 0xE2, CHR 0x80, CHR 0x80], [CHR 0xE2, CHR 0x80, CHR 0x81],
      [CHR 0xE2, CHR 0x80, CHR 0x82], [CHR 0xE2, CHR 0x80, CHR 0x83],
      [CHR 0xE2, CHR 0x80, CHR 0x84], [CHR 0xE2, CHR 0x80, CHR 0x85],
      [CHR 0xE2, CHR 0x80, CHR 0x86], [CHR 0xE2, CHR 0x80, CHR 0x87],
      [CHR 0xE2, CHR 0x80, CHR 0x88], [CHR 0xE2, CHR 0x80, CHR 0x89],
      [CHR 0xE2, CHR 0x80, CHR 0x8A], [CHR 0xE2, CHR 0x80, CHR 0xA8],
      [CHR 0xE2, CHR 0x80, CHR 0xA9], [CHR 0xE2, CHR 0x80, CHR 0xAF],
      [CHR 0xE2, CHR 0x81, CHR 0x9F], [CHR 0xE3, CHR 0x80, CHR 0x80]]"

text \<open>The length of the encoding among \<open>qs\<close> that \<open>s\<close> begins with, 0 if there is
  none.\<close>

fun space_prefix :: "string list \<Rightarrow> string \<Rightarrow> nat" where
  "space_prefix [] s = 0"
| "space_prefix (q # qs) s = (if prefix q s then length q else space_prefix qs s)"

function trim_left :: "string list \<Rightarrow> string \<Rightarrow> string" where
  "trim_left qs s =
     (if space_prefix qs s = 0 then s else trim_left qs (drop (space_prefix qs s) s))"
  by pat_completeness auto
termination
proof (relation "measure (\<lambda>(qs, s). length s)")
  show "wf (measure (\<lambda>(qs, s). length s))" by simp
next
  fix qs :: "string list" and s :: string
  assume "space_prefix qs s \<noteq> 0"
  moreover have "space_prefix qs s \<le> length s"
    by (induction qs) (simp_all add: prefix_length_le)
  ultimately show "((qs, drop (space_prefix qs s) s), (qs, s)) \<in> measure (\<lambda>(qs, s). length s)"
    by simp
qed

declare trim_left.simps [simp del]

definition TrimLeft :: "string \<Rightarrow> string" where
  "TrimLeft s = trim_left space_runes s"

definition TrimRight :: "string \<Rightarrow> string" where
  "TrimRight s = rev (trim_left (map rev space_runes) (rev s))"

definition TrimSpace :: "string \<Rightarrow> string" where
  "TrimSpace s = TrimRight (TrimLeft s)"

text \<open>A string that consists of white space only.\<close>

definition white_space :: "string \<Rightarrow> bool" where
  "white_space s = (\<exists>ps. set ps \<subseteq> set space_runes \<and> concat ps = s)"

text \<open>\<open>strings.ToUpper\<close>: on a string of ASCII bytes it maps \<open>a\<close>..\<open>z\<close> to
  \<open>A\<close>..\<open>Z\<close>; any other string is mapped by the Unicode tables of the library.\<close>

definition upper_char :: "char \<Rightarrow> char" where
  "upper_char c =
     (if 97 \<le> (of_char c :: nat) \<and> (of_char c :: nat) \<le> 122
      then char_of ((of_char c :: nat) - 32) else c)"

definition ToUpper :: "library \<Rightarrow> string \<Rightarrow> string" where
  "ToUpper lb s =
     (if list_all (\<lambda>c. (of_char c :: nat) < 128) s then map upper_char s
      else unicode_ToUpper lb s)"

subsection \<open>\<open>time.Parse\<close> for the layouts without a zone\<close>

text \<open>
  The layouts \<open>2006-01-02 15:04:05\<close>, \<open>2006/01/02 15:04:05\<close> and
  \<open>2006-01-02T15:04:05\<close> are sequences of the layout elements below.  \<open>time.Parse\<close>
  walks the layout: literal text must match (a space in the layout matches a run of
  spaces in the value), the year takes four digits, month, day, minute and second take
  exactly two digits, the hour one or two; a fractional second in the value is accepted
  after the seconds; nothing may remain; month, hour, minute, second and the day of the
  month are range-checked.  The result is the instant in UTC, in nanoseconds since the
  zero time.
\<close>

datatype chunk = stdLongYear | stdZeroMonth | stdZeroDay | stdHour | stdZeroMinute
  | stdZeroSecond | Lit char

record civil =
  c_year :: int
  c_month :: int
  c_day :: int
  c_hour :: int
  c_min :: int
  c_sec :: int
  c_nsec :: int

definition isDigit :: "string \<Rightarrow> nat \<Rightarrow> bool" where
  "isDigit s i = (i < length s \<and> 48 \<le> (of_char (s ! i) :: nat) \<and> (of_char (s ! i) :: nat) \<le> 57)"

definition digit_val :: "char \<Rightarrow> int" where
  "digit_val c = int (of_char c) - 48"

definition getnum :: "string \<Rightarrow> bool \<Rightarrow> (int \<times> string) option" where
  "getnum s fixed =
     (if \<not> isDigit s 0 then None
      else if \<not> isDigit s 1 then
        (if fixed then None else Some (digit_val (s ! 0), drop 1 s))
      else Some (digit_val (s ! 0) * 10 + digit_val (s ! 1), drop 2 s))"

text \<open>\<open>atoi\<close> on a string whose first byte is known to be a digit: every byte must be
  a digit.\<close>

definition atoi_digits :: "string \<Rightarrow> int option" where
  "atoi_digits s =
     (if s \<noteq> [] \<and> list_all (\<lambda>c. isDigit [c] 0) s
      then Some (fold (\<lambda>c n. n * 10 + digit_val c) s 0) else None)"

definition commaOrPeriod :: "char \<Rightarrow> bool" where
  "commaOrPeriod c = (c = CHR ''.'' \<or> c = CHR '','')"

definition parseNanoseconds :: "string \<Rightarrow> nat \<Rightarrow> int option" where
  "parseNanoseconds v nbytes =
     (if v = [] \<or> \<not> commaOrPeriod (v ! 0) then None
      else let nb = (if nbytes > 10 then 10 else nbytes);
               v' = (if nbytes > 10 then take 10 v else v)
           in (case atoi_digits (take (nb - 1) (drop 1 v')) of
                 None \<Rightarrow> None
               | Some ns \<Rightarrow> Some (ns * 10 ^ (10 - nb))))"

definition skip_lit :: "string \<Rightarrow> char \<Rightarrow> string option" where
  "skip_lit v c =
     (if c = CHR '' '' then
        (if v \<noteq> [] \<and> hd v \<noteq> CHR '' '' then None
         else Some (dropWhile (\<lambda>x. x = CHR '' '') v))
      else if v = [] \<or> hd v \<noteq> c then None
      else Some (tl v))"

fun parse_chunks :: "chunk list \<Rightarrow> string \<Rightarrow> civil \<Rightarrow> civil option" where
  "parse_chunks [] v cv = (if v = [] then Some cv else None)"
| "parse_chunks (Lit c # cs) v cv =
     (case skip_lit v c of None \<Rightarrow> None | Some v' \<Rightarrow> parse_chunks cs v' cv)"
| "parse_chunks (stdLongYear # cs) v cv =
     (if length v < 4 \<or> \<not> isDigit v 0 then None
      else (case atoi_digits (take 4 v) of
              None \<Rightarrow> None
            | Some y \<Rightarrow> parse_chunks cs (drop 4 v) (cv\<lparr> c_year := y \<rparr>)))"
| "parse_chunks (stdZeroMonth # cs) v cv =
     (case getnum v True of
        None \<Rightarrow> None
      | Some (m, v') \<Rightarrow>
          (if m \<le> 0 \<or> 12 < m then None else parse_chunks cs v' (cv\<lparr> c_month := m \<rparr>)))"
| "parse_chunks (stdZeroDay # cs) v cv =
     (case getnum v True of
        None \<Rightarrow> None
      | Some (d, v') \<Rightarrow> parse_chunks cs v' (cv\<lparr> c_day := d \<rparr>))"
| "parse_chunks (stdHour # cs) v cv =
     (case getnum v False of
        None \<Rightarrow> None
      | Some (h, v') \<Rightarrow>
          (if h < 0 \<or> 24 \<le> h then None else parse_chunks cs v' (cv\<lparr> c_hour := h \<rparr>)))"
| "parse_chunks (stdZeroMinute # cs) v cv =
     (case getnum v True of
        None \<Rightarrow> None
      | Some (m, v') \<Rightarrow>
          (if m < 0 \<or> 60 \<le> m then None else parse_chunks cs v' (cv\<lparr> c_min := m \<rparr>)))"
| "parse_chunks (stdZeroSecond # cs) v cv =
     (case getnum v True of
        None \<Rightarrow> None
      | Some (s, v') \<Rightarrow>
          (if s < 0 \<or> 60 \<le> s then None
           else if length v' \<ge> 2 \<and> commaOrPeriod (v' ! 0) \<and> isDigit v' 1 then
             (let n = 2 + length (takeWhile (\<lambda>c. isDigit [c] 0) (drop 2 v'))
              in (case parseNanoseconds v' n of
                    None \<Rightarrow> None
                  | Some ns \<Rightarrow> parse_chunks cs (drop n v') (cv\<lparr> c_sec := s, c_nsec := ns \<rparr>)))
           else parse_chunks cs v' (cv\<lparr> c_sec := s \<rparr>)))"

definition isLeap :: "int \<Rightarrow> bool" where
  "isLeap y = (y mod 4 = 0 \<and> (y mod 100 \<noteq> 0 \<or> y mod 400 = 0))"

definition daysIn :: "int \<Rightarrow> int \<Rightarrow> int" where
  "daysIn m y =
     (if m = 2 then (if isLeap y then 29 else 28)
      else if m = 4 \<or> m = 6 \<or> m = 9 \<or> m = 11 then 30 else 31)"

definition daysBefore :: "int \<Rightarrow> int" where
  "daysBefore m = [0, 31, 59, 90, 120, 151, 181, 212, 243, 273, 304, 334] ! nat (m - 1)"

text \<open>\<open>time.Date\<close> in UTC for a month in 1..12: nanoseconds since the zero time.\<close>

definition Date :: "int \<Rightarrow> int \<Rightarrow> int \<Rightarrow> int \<Rightarrow> int \<Rightarrow> int \<Rightarrow> int \<Rightarrow> time" where
  "Date y m d h mi s ns =
     (let y1 = y - 1;
          days = 365 * y1 + y1 div 4 - y1 div 100 + y1 div 400
                 + daysBefore m + (if isLeap y \<and> m > 2 then 1 else 0) + (d - 1)
      in (((days * 24 + h) * 60 + mi) * 60 + s) * 1000000000 + ns)"

definition time_Parse :: "chunk list \<Rightarrow> string \<Rightarrow> time option" where
  "time_Parse layout v =
     (case parse_chunks layout v
             \<lparr> c_year = 1, c_month = 1, c_day = 1, c_hour = 0, c_min = 0, c_sec = 0,
               c_nsec = 0 \<rparr> of
        None \<Rightarrow> None
      | Some cv \<Rightarrow>
          (if c_day cv < 1 \<or> c_day cv > daysIn (c_month cv) (c_year cv) then None
           else Some (Date (c_year cv) (c_month cv) (c_day cv) (c_hour cv) (c_min cv)
                        (c_sec cv) (c_nsec cv))))"

definition layout_dash_space :: "chunk list" where
  "layout_dash_space =
     [stdLongYear, Lit CHR ''-'', stdZeroMonth, Lit CHR ''-'', stdZeroDay, Lit CHR '' '',
      stdHour, Lit CHR '':'', stdZeroMinute, Lit CHR '':'', stdZeroSecond]"

definition layout_slash_space :: "chunk list" where
  "layout_slash_space =
     [stdLongYear, Lit CHR ''/'', stdZeroMonth, Lit CHR ''/'', stdZeroDay, Lit CHR '' '',
      stdHour, Lit CHR '':'', stdZeroMinute, Lit CHR '':'', stdZeroSecond]"

definition layout_dash_T :: "chunk list" where
  "layout_dash_T =
     [stdLongYear, Lit CHR ''-'', stdZeroMonth, Lit CHR ''-'', stdZeroDay, Lit CHR ''T'',
      stdHour, Lit CHR '':'', stdZeroMinute, Lit CHR '':'', stdZeroSecond]"

section \<open>Parsers (internal/parser)\<close>

datatype error = ErrInvalidFormat | ErrEmptyLine | ErrParseFailure
  | ErrOpenFailed | ErrStatFailed | ErrReadFailed | ErrFindFailed | ErrNoLogFiles
  | ErrWorkers nat

datatype LogParser = JSONLogParser | PlainTextLogParser

datatype ParserType = JSONParser | PlainTextParser | AutoDetectParser

subsection \<open>Free-text parser (plain.go)\<close>

definition plain_formats :: "(chunk list \<times> nat) list" where
  "plain_formats = [(layout_dash_space, 19), (layout_slash_space, 19), (layout_dash_T, 19)]"

fun try_formats :: "(chunk list \<times> nat) list \<Rightarrow> bool \<Rightarrow> string \<Rightarrow> (time \<times> string) option" where
  "try_formats [] hasBracket line = None"
| "try_formats ((format, len) # fs) hasBracket line =
     (if length line \<ge> len then
        (case time_Parse format (take len line) of
           Some t \<Rightarrow>
             (let rest = drop len line;
                  rest' = (if hasBracket \<and> HasPrefix rest '']'' then drop 1 rest else rest)
              in Some (t, TrimSpace rest'))
         | None \<Rightarrow> try_formats fs hasBracket line)
      else try_formats fs hasBracket line)"

text \<open>\<open>extractTimestamp\<close>; \<open>None\<close> stands for the "no timestamp found" error, whose
  accompanying values the caller discards.\<close>

definition extractTimestamp :: "string \<Rightarrow> (time \<times> string) option" where
  "extractTimestamp line0 =
     (let line = TrimSpace line0;
          hasBracket = HasPrefix line ''['';
          line' = (if hasBracket then drop 1 line else line)
      in try_formats plain_formats hasBracket line')"

definition levels :: "string list" where
  "levels = [''FATAL'', ''ERROR'', ''WARN'', ''WARNING'', ''INFO'', ''DEBUG'']"

definition level_patterns :: "string \<Rightarrow> string list" where
  "level_patterns lvl = [lvl @ '':'', lvl @ '' -'', lvl @ '' '']"

fun match_patterns :: "library \<Rightarrow> string list \<Rightarrow> string \<Rightarrow> string option" where
  "match_patterns lb [] line = None"
| "match_patterns lb (pattern # ps) line =
     (if HasPrefix (ToUpper lb line) pattern
      then Some (TrimSpace (drop (length pattern) line))
      else match_patterns lb ps line)"

fun match_levels :: "library \<Rightarrow> string list \<Rightarrow> string \<Rightarrow> (LogLevel \<times> string) option" where
  "match_levels lb [] line = None"
| "match_levels lb (lvl # ls) line =
     (case match_patterns lb (level_patterns lvl) line of
        Some message \<Rightarrow> Some (ParseLogLevel lvl, message)
      | None \<Rightarrow> match_levels lb ls line)"

fun contains_levels :: "library \<Rightarrow> string list \<Rightarrow> string \<Rightarrow> (LogLevel \<times> string) option" where
  "contains_levels lb [] line = None"
| "contains_levels lb (lvl # ls) line =
     (if Contains (ToUpper lb line) lvl then Some (ParseLogLevel lvl, line)
      else contains_levels lb ls line)"

definition extractLevelAndMessage :: "library \<Rightarrow> string \<Rightarrow> LogLevel \<times> string" where
  "extractLevelAndMessage lb line0 =
     (let line = TrimSpace line0
      in (case match_levels lb levels line of
            Some r \<Rightarrow> r
          | None \<Rightarrow>
              (case contains_levels lb levels line of
                 Some r \<Rightarrow> r
               | None \<Rightarrow> (INFO, line))))"

text \<open>\<open>now\<close> is the reading of the wall clock that \<open>time.Now()\<close> would give.\<close>

definition PlainText_Parse :: "library \<Rightarrow> time \<Rightarrow> string \<Rightarrow> string \<Rightarrow> error + LogEntry" where
  "PlainText_Parse lb now line source =
     (if TrimSpace line = [] then Inl ErrEmptyLine
      else let (timestamp, rest) =
                 (case extractTimestamp line of
                    Some (t, r) \<Rightarrow> (t, r)
                  | None \<Rightarrow> (now, line));
               (level, message) = extractLevelAndMessage lb rest
           in Inr \<lparr> Timestamp = timestamp, Level = level, Message = TrimSpace message,
                    Source = source, Raw = line \<rparr>)"

definition PlainText_CanParse :: "string \<Rightarrow> bool" where
  "PlainText_CanParse line = (length (TrimSpace line) > 0)"

subsection \<open>Structured parser\<close>

fun first_some :: "('a \<Rightarrow> 'b option) list \<Rightarrow> 'a \<Rightarrow> 'b option" where
  "first_some [] s = None"
| "first_some (f # fs) s = (case f s of Some t \<Rightarrow> Some t | None \<Rightarrow> first_some fs s)"

definition parseTimestamp :: "library \<Rightarrow> string \<Rightarrow> time option" where
  "parseTimestamp lib s =
     first_some [rfc3339 lib, rfc3339nano lib, time_Parse layout_dash_T,
                 time_Parse layout_dash_space, time_Parse layout_slash_space] s"

definition JSON_Parse :: "library \<Rightarrow> time \<Rightarrow> string \<Rightarrow> string \<Rightarrow> error + LogEntry" where
  "JSON_Parse lib now line source =
     (if TrimSpace line = [] then Inl ErrEmptyLine
      else (case unmarshal lib line of
              None \<Rightarrow> Inl ErrInvalidFormat
            | Some jsonEntry \<Rightarrow>
                (let timestampStr = (if j_Timestamp jsonEntry = [] then j_Time jsonEntry
                                     else j_Timestamp jsonEntry);
                     timestamp = (case parseTimestamp lib timestampStr of
                                    Some t \<Rightarrow> t | None \<Rightarrow> now);
                     message = (if j_Message jsonEntry = [] then j_Msg jsonEntry
                                else j_Message jsonEntry)
                 in Inr \<lparr> Timestamp = timestamp,
                          Level = ParseLogLevel (ToUpper lib (j_Level jsonEntry)),
                          Message = message, Source = source, Raw = line \<rparr>)))"

definition JSON_CanParse :: "string \<Rightarrow> bool" where
  "JSON_CanParse line0 =
     (let line = TrimSpace line0
      in if line = [] then False else HasPrefix line ''{'' \<and> HasSuffix line ''}'')"

subsection \<open>The parser interface and the detector\<close>

fun Parse :: "LogParser \<Rightarrow> library \<Rightarrow> time \<Rightarrow> string \<Rightarrow> string \<Rightarrow> error + LogEntry" where
  "Parse JSONLogParser lib now line source = JSON_Parse lib now line source"
| "Parse PlainTextLogParser lib now line source = PlainText_Parse lib now line source"

fun CanParse :: "LogParser \<Rightarrow> string \<Rightarrow> bool" where
  "CanParse JSONLogParser line = JSON_CanParse line"
| "CanParse PlainTextLogParser line = PlainText_CanParse line"

definition DetectParser :: "string \<Rightarrow> LogParser" where
  "DetectParser line0 =
     (let line = TrimSpace line0
      in if CanParse JSONLogParser line then JSONLogParser else PlainTextLogParser)"

fun GetParser :: "ParserType \<Rightarrow> LogParser" where
  "GetParser JSONParser = JSONLogParser"
| "GetParser PlainTextParser = PlainTextLogParser"
| "GetParser AutoDetectParser = PlainTextLogParser"

section \<open>Analyzer: configuration and filtering\<close>

record Config =
  Workers :: int
  cfg_Level :: LogLevel
  Pattern :: string
  StartTime :: time
  EndTime :: time
  AutoDetect :: bool
  cfg_ParserType :: ParserType

definition shouldInclude :: "Config \<Rightarrow> LogEntry \<Rightarrow> bool" where
  "shouldInclude config entry =
     (if cfg_Level config \<noteq> UNKNOWN \<and> level_val (Level entry) < level_val (cfg_Level config)
      then False
      else if Pattern config \<noteq> [] \<and> \<not> MatchesPattern entry (Pattern config) then False
      else if \<not> IsZero (StartTime config) \<and> Before (Timestamp entry) (StartTime config)
      then False
      else if \<not> IsZero (EndTime config) \<and> After (Timestamp entry) (EndTime config)
      then False
      else True)"

section \<open>Analyzer: one file\<close>

text \<open>
  What the operating system and \<open>bufio.Scanner\<close> present of a file: the lines that
  successive \<open>Scan\<close> calls deliver, whether scanning ended with an error
  (\<open>scanner.Err()\<close>, for instance a line above the 1 MiB limit), and the result of
  \<open>Stat\<close>.  A path that cannot be opened has no file.
\<close>

record logfile =
  f_lines :: "string list"
  f_scan_err :: bool
  f_stat :: "int option"

type_synonym filesystem = "string \<Rightarrow> logfile option"

record Analyzer =
  config :: Config
  aggregator :: Aggregator
  parser :: "LogParser option"

definition NewAnalyzer :: "Config \<Rightarrow> Analyzer" where
  "NewAnalyzer cfg =
     \<lparr> config = cfg, aggregator = NewAggregator,
       parser = (if AutoDetect cfg then None else Some (GetParser (cfg_ParserType cfg))) \<rparr>"

text \<open>\<open>filepath.Base\<close> and \<open>filepath.Ext\<close> with \<open>/\<close> as separator.\<close>

definition Base :: "string \<Rightarrow> string" where
  "Base path =
     (if path = [] then ''.''
      else let p = rev (dropWhile (\<lambda>c. c = CHR ''/'') (rev path));
               q = rev (takeWhile (\<lambda>c. c \<noteq> CHR ''/'') (rev p))
           in if q = [] then ''/'' else q)"

definition Ext :: "string \<Rightarrow> string" where
  "Ext path =
     (let last_elem = rev (takeWhile (\<lambda>c. c \<noteq> CHR ''/'') (rev path))
      in if CHR ''.'' \<in> set last_elem
         then CHR ''.'' # rev (takeWhile (\<lambda>c. c \<noteq> CHR ''.'') (rev last_elem))
         else [])"

text \<open>
  \<open>AnalyzeFile\<close> touches the shared aggregator only through calls that take a lock:
  \<open>AddBatch\<close> for every full batch and for the remainder, \<open>AddFile\<close> at the end.
  Its run on a file is the sequence of these calls together with the error it returns.
  \<open>clk n\<close> is what \<open>time.Now()\<close> reads while line \<open>n\<close> is parsed.
\<close>

datatype action = DoAddBatch "LogEntry list" | DoAddFile int

fun apply_action :: "action \<Rightarrow> Aggregator \<Rightarrow> Aggregator" where
  "apply_action (DoAddBatch es) a = AddBatch a es"
| "apply_action (DoAddFile n) a = a\<lparr> stats := AddFile (stats a) n \<rparr>"

fun scan_loop :: "Analyzer \<Rightarrow> library \<Rightarrow> (nat \<Rightarrow> time) \<Rightarrow> string \<Rightarrow> string list
                  \<Rightarrow> nat \<Rightarrow> LogEntry list \<Rightarrow> action list" where
  "scan_loop a lib clk src [] lineCount buf =
     (if length buf > 0 then [DoAddBatch buf] else [])"
| "scan_loop a lib clk src (line # rest) lineCount buf =
     (let lineCount' = lineCount + 1
      in if line = [] then scan_loop a lib clk src rest lineCount' buf
         else let currentParser = (case parser a of None \<Rightarrow> DetectParser line | Some p \<Rightarrow> p)
              in (case Parse currentParser lib (clk lineCount') line src of
                    Inl err \<Rightarrow> scan_loop a lib clk src rest lineCount' buf
                  | Inr entry \<Rightarrow>
                      if \<not> shouldInclude (config a) entry
                      then scan_loop a lib clk src rest lineCount' buf
                      else let buf' = buf @ [entry]
                           in if length buf' \<ge> 1000
                              then DoAddBatch buf' # scan_loop a lib clk src rest lineCount' []
                              else scan_loop a lib clk src rest lineCount' buf'))"

definition AnalyzeFile_calls ::
    "Analyzer \<Rightarrow> library \<Rightarrow> (nat \<Rightarrow> time) \<Rightarrow> filesystem \<Rightarrow> string
       \<Rightarrow> action list \<times> error option" where
  "AnalyzeFile_calls a lib clk fsys filePath =
     (case fsys filePath of
        None \<Rightarrow> ([], Some ErrOpenFailed)
      | Some f \<Rightarrow>
          (case f_stat f of
             None \<Rightarrow> ([], Some ErrStatFailed)
           | Some fsize \<Rightarrow>
               (let calls = scan_loop a lib clk (Base filePath) (f_lines f) 0 []
                in if f_scan_err f then (calls, Some ErrReadFailed)
                   else (calls @ [DoAddFile fsize], None))))"

definition AnalyzeFile ::
    "Analyzer \<Rightarrow> library \<Rightarrow> (nat \<Rightarrow> time) \<Rightarrow> filesystem \<Rightarrow> string
       \<Rightarrow> error option \<times> Analyzer" where
  "AnalyzeFile a lib clk fsys filePath =
     (let (calls, err) = AnalyzeFile_calls a lib clk fsys filePath
      in (err, a\<lparr> aggregator := fold apply_action calls (aggregator a) \<rparr>))"

text \<open>The outcome the specification gives for one line: a record when the line is not
  empty, parses and passes the filters, nothing otherwise.\<close>

definition line_record ::
    "Analyzer \<Rightarrow> library \<Rightarrow> (nat \<Rightarrow> time) \<Rightarrow> string \<Rightarrow> nat \<Rightarrow> string \<Rightarrow> LogEntry option" where
  "line_record a lib clk src n line =
     (if line = [] then None
      else (case Parse (case parser a of None \<Rightarrow> DetectParser line | Some p \<Rightarrow> p)
                   lib (clk n) line src of
              Inl err \<Rightarrow> None
            | Inr entry \<Rightarrow> if shouldInclude (config a) entry then Some entry else None))"

definition file_records ::
    "Analyzer \<Rightarrow> library \<Rightarrow> (nat \<Rightarrow> time) \<Rightarrow> string \<Rightarrow> nat \<Rightarrow> string list \<Rightarrow> LogEntry list" where
  "file_records a lib clk src start ls =
     List.map_filter (\<lambda>(n, line). line_record a lib clk src n line)
       (List.enumerate (Suc start) ls)"

section \<open>Sorting\<close>

text \<open>
  \<open>sort.Slice\<close> belongs to the Go library; it is a pattern-defeating quicksort and,
  by its documentation, not guaranteed to be stable.  What is taken from it: a slice of
  at most 12 elements is sorted by insertion (\<open>insertionSort\<close>: each element in turn is
  exchanged with its left neighbour as long as it is \<open>less\<close> than that neighbour), a
  longer slice that is already sorted is returned as it is, and any other slice ends
  up as a rearrangement in which no element is \<open>less\<close> than an earlier one; which
  rearrangement is not followed further.
\<close>

text \<open>\<open>sift_left lt x rs\<close>: the element \<open>x\<close> moves left past the elements of the part
  before it, given nearest first in \<open>rs\<close>, for as long as it is \<open>lt\<close> than them.\<close>

fun sift_left :: "('a \<Rightarrow> 'a \<Rightarrow> bool) \<Rightarrow> 'a \<Rightarrow> 'a list \<Rightarrow> 'a list" where
  "sift_left lt x [] = [x]"
| "sift_left lt x (y # rs) = (if lt x y then y # sift_left lt x rs else x # y # rs)"

definition insertionSort :: "('a \<Rightarrow> 'a \<Rightarrow> bool) \<Rightarrow> 'a list \<Rightarrow> 'a list" where
  "insertionSort lt xs = rev (fold (sift_left lt) xs [])"

definition sort_Slice :: "('a \<Rightarrow> 'a \<Rightarrow> bool) \<Rightarrow> 'a list \<Rightarrow> 'a list \<Rightarrow> bool" where
  "sort_Slice lt xs ys =
     (if length xs \<le> 12 then ys = insertionSort lt xs
      else if sorted_wrt (\<lambda>x y. \<not> lt y x) xs then ys = xs
      else mset ys = mset xs \<and> sorted_wrt (\<lambda>x y. \<not> lt y x) ys)"

definition SortByTime :: "Aggregator \<Rightarrow> Aggregator \<Rightarrow> bool" where
  "SortByTime a a' =
     (sort_Slice (\<lambda>x y. Before (Timestamp x) (Timestamp y)) (entries a) (entries a')
      \<and> stats a' = stats a)"

text \<open>One outcome of \<open>SortByTime\<close>, for runs that are written out in full.\<close>

definition sorted_outcome :: "Aggregator \<Rightarrow> Aggregator" where
  "sorted_outcome a =
     a\<lparr> entries :=
         (if length (entries a) \<le> 12
          then insertionSort (\<lambda>x y. Before (Timestamp x) (Timestamp y)) (entries a)
          else if sorted (map Timestamp (entries a)) then entries a
          else sort_key Timestamp (entries a)) \<rparr>"

section \<open>Analyzer: a directory\<close>

text \<open>\<open>filepath.Clean\<close> and \<open>filepath.Join\<close> with \<open>/\<close> as separator: empty and
  \<open>.\<close> elements are dropped, \<open>..\<close> removes the element before it (at the root it is
  dropped, at the start of a relative path it is kept), and the empty result is
  \<open>.\<close>.\<close>

fun split_path :: "string \<Rightarrow> string \<Rightarrow> string list" where
  "split_path cur [] = [cur]"
| "split_path cur (c # cs) =
     (if c = CHR ''/'' then cur # split_path [] cs else split_path (cur @ [c]) cs)"

fun clean_elems :: "bool \<Rightarrow> string list \<Rightarrow> string list \<Rightarrow> string list" where
  "clean_elems rooted st [] = rev st"
| "clean_elems rooted st (e # es) =
     (if e = [] \<or> e = ''.'' then clean_elems rooted st es
      else if e = ''..'' then
        (if st \<noteq> [] \<and> hd st \<noteq> ''..'' then clean_elems rooted (tl st) es
         else if rooted then clean_elems rooted st es
         else clean_elems rooted (e # st) es)
      else clean_elems rooted (e # st) es)"

fun join_slash :: "string list \<Rightarrow> string" where
  "join_slash [] = []"
| "join_slash [e] = e"
| "join_slash (e # es) = e @ ''/'' @ join_slash es"

definition Clean :: "string \<Rightarrow> string" where
  "Clean path =
     (if path = [] then ''.''
      else let rooted = (hd path = CHR ''/'');
               out = (if rooted then ''/'' else []) @
                     join_slash (clean_elems rooted [] (split_path [] path))
           in if out = [] then ''.'' else out)"

definition Join :: "string \<Rightarrow> string \<Rightarrow> string" where
  "Join a b =
     (if a = [] \<and> b = [] then []
      else if a = [] then Clean b
      else if b = [] then Clean a
      else Clean (a @ ''/'' @ b))"

text \<open>What \<open>filepath.Walk\<close> meets below a directory: files, directories, and entries
  on which it reports an error.\<close>

datatype node = File string | Dir string "node list" | Unreadable string

fun node_name :: "node \<Rightarrow> string" where
  "node_name (File n) = n"
| "node_name (Dir n cs) = n"
| "node_name (Unreadable n) = n"

fun walk :: "string \<Rightarrow> node \<Rightarrow> error + string list"
  and walk_list :: "string \<Rightarrow> node list \<Rightarrow> error + string list" where
  "walk path (File n) = Inr (if Ext path = ''.log'' then [path] else [])"
| "walk path (Unreadable n) = Inl ErrFindFailed"
| "walk path (Dir n cs) = walk_list path cs"
| "walk_list path [] = Inr []"
| "walk_list path (c # cs) =
     (case walk (Join path (node_name c)) c of
        Inl e \<Rightarrow> Inl e
      | Inr fs \<Rightarrow> (case walk_list path cs of Inl e \<Rightarrow> Inl e | Inr gs \<Rightarrow> Inr (fs @ gs)))"

definition findLogFiles :: "node \<Rightarrow> string \<Rightarrow> error + string list" where
  "findLogFiles tree dirPath = walk dirPath tree"

text \<open>The surroundings of a run: the directory tree, the files and the library.\<close>

record world =
  tree :: node
  files :: filesystem
  lib :: library

text \<open>
  The wall clock is read by \<open>time.Now()\<close> whenever a line carries no timestamp that
  parses, at a moment that depends on when the run takes place and on how the workers
  are scheduled.  A run reads the clock at most once for a line, so the readings of a
  run are a function \<open>clk\<close>: \<open>clk path n\<close> is what the clock shows when line
  \<open>n\<close> of \<open>path\<close> is parsed.  Different runs have different readings.
\<close>

type_synonym readings = "string \<Rightarrow> nat \<Rightarrow> time"

text \<open>
  The worker pool.  A worker is either waiting on the file channel (\<open>None\<close>) or inside
  \<open>AnalyzeFile\<close> with the calls it has still to make and the error it will return.
  One step is one worker receiving a path, making its next call on the aggregator (the
  lock makes the call atomic), or returning from \<open>AnalyzeFile\<close> and reporting its error.
\<close>

record pool =
  fileChan :: "string list"
  workers :: "(action list \<times> error option) option list"
  shared :: Aggregator
  errChan :: nat

inductive pool_step :: "world \<Rightarrow> readings \<Rightarrow> Analyzer \<Rightarrow> pool \<Rightarrow> pool \<Rightarrow> bool"
  for w :: world and clk :: readings and a :: Analyzer where
  receive:
    "\<lbrakk> i < length (workers s); workers s ! i = None; fileChan s = p # ps \<rbrakk>
     \<Longrightarrow> pool_step w clk a s
           (s\<lparr> fileChan := ps,
               workers := (workers s)[i := Some (AnalyzeFile_calls a (lib w) (clk p) (files w) p)] \<rparr>)"
| call:
    "\<lbrakk> i < length (workers s); workers s ! i = Some (c # cs, err) \<rbrakk>
     \<Longrightarrow> pool_step w clk a s
           (s\<lparr> workers := (workers s)[i := Some (cs, err)],
               shared := apply_action c (shared s) \<rparr>)"
| return:
    "\<lbrakk> i < length (workers s); workers s ! i = Some ([], err) \<rbrakk>
     \<Longrightarrow> pool_step w clk a s
           (s\<lparr> workers := (workers s)[i := None],
               errChan := errChan s + (if err = None then 0 else 1) \<rparr>)"

definition pool_start :: "Analyzer \<Rightarrow> string list \<Rightarrow> pool" where
  "pool_start a fs =
     (let numWorkers = (if Workers (config a) \<le> 0 then 4 else Workers (config a))
      in \<lparr> fileChan = fs, workers = replicate (nat numWorkers) None,
           shared = aggregator a, errChan = 0 \<rparr>)"

definition pool_done :: "pool \<Rightarrow> bool" where
  "pool_done s = (fileChan s = [] \<and> list_all (\<lambda>x. x = None) (workers s))"

text \<open>\<open>AnalyzeDirectory w clk dirPath a (err, a')\<close>: started on analyzer \<open>a\<close>, in a run
  with clock readings \<open>clk\<close>, the call can return \<open>err\<close> and leave the analyzer as
  \<open>a'\<close>.\<close>

inductive AnalyzeDirectory ::
    "world \<Rightarrow> readings \<Rightarrow> string \<Rightarrow> Analyzer \<Rightarrow> error option \<times> Analyzer \<Rightarrow> bool"
  for w :: world and clk :: readings and dirPath :: string and a :: Analyzer where
  find_failed:
    "findLogFiles (tree w) dirPath = Inl e
     \<Longrightarrow> AnalyzeDirectory w clk dirPath a (Some ErrFindFailed, a)"
| no_files:
    "findLogFiles (tree w) dirPath = Inr []
     \<Longrightarrow> AnalyzeDirectory w clk dirPath a (Some ErrNoLogFiles, a)"
| analyzed:
    "\<lbrakk> findLogFiles (tree w) dirPath = Inr fs; fs \<noteq> [];
       (pool_step w clk a)\<^sup>*\<^sup>* (pool_start a fs) s; pool_done s;
       SortByTime ((shared s)\<lparr> stats := SetProcessingTime (stats (shared s)) elapsed \<rparr>) agg' \<rbrakk>
     \<Longrightarrow> AnalyzeDirectory w clk dirPath a
           (if errChan s > 0 then Some (ErrWorkers (errChan s)) else None,
            a\<lparr> aggregator := agg' \<rparr>)"

section \<open>Bookkeeping for runs of the worker pool\<close>

text \<open>The records a call hands to the aggregator; the calls a worker makes for a
  path; what the workers and the channel of a pool state have still to deliver, as
  records and as errors; and the agreement of the counters with the entries held.\<close>

fun call_records :: "action \<Rightarrow> LogEntry list" where
  "call_records (DoAddBatch es) = es"
| "call_records (DoAddFile n) = []"

definition calls_records :: "action list \<Rightarrow> LogEntry multiset" where
  "calls_records cs = mset (concat (map call_records cs))"

definition file_calls ::
    "world \<Rightarrow> readings \<Rightarrow> Analyzer \<Rightarrow> string \<Rightarrow> action list \<times> error option" where
  "file_calls w clk a p = AnalyzeFile_calls a (lib w) (clk p) (files w) p"

fun err_count :: "error option \<Rightarrow> nat" where
  "err_count None = 0"
| "err_count (Some e) = 1"

fun worker_records :: "(action list \<times> error option) option \<Rightarrow> LogEntry multiset" where
  "worker_records None = {#}"
| "worker_records (Some (cs, err)) = calls_records cs"

fun worker_errs :: "(action list \<times> error option) option \<Rightarrow> nat" where
  "worker_errs None = 0"
| "worker_errs (Some (cs, err)) = err_count err"

definition pool_records :: "world \<Rightarrow> readings \<Rightarrow> Analyzer \<Rightarrow> pool \<Rightarrow> LogEntry multiset" where
  "pool_records w clk a s =
     mset (entries (shared s))
     + sum_list (map worker_records (workers s))
     + sum_list (map (\<lambda>p. calls_records (fst (file_calls w clk a p))) (fileChan s))"

definition pool_errs :: "world \<Rightarrow> readings \<Rightarrow> Analyzer \<Rightarrow> pool \<Rightarrow> nat" where
  "pool_errs w clk a s =
     errChan s
     + sum_list (map worker_errs (workers s))
     + sum_list (map (\<lambda>p. err_count (snd (file_calls w clk a p))) (fileChan s))"

definition stats_agree :: "Aggregator \<Rightarrow> bool" where
  "stats_agree a =
     (TotalEntries (stats a) = int (length (entries a))
      \<and> (\<forall>l. lookup0 (LevelCounts (stats a)) l = count_where (\<lambda>e. Level e = l) (entries a))
      \<and> (\<forall>src. lookup0 (SourceCounts (stats a)) src
                 = count_where (\<lambda>e. Source e = src) (entries a)))"

text \<open>
  The run in which one worker takes the paths one after the other and the others stay
  idle, written as a function; \<open>elapsed\<close> is the duration it records.
\<close>

definition sequential_run ::
    "world \<Rightarrow> readings \<Rightarrow> string \<Rightarrow> Analyzer \<Rightarrow> int \<Rightarrow> error option \<times> Analyzer" where
  "sequential_run w clk dirPath a elapsed =
     (case findLogFiles (tree w) dirPath of
        Inl e \<Rightarrow> (Some ErrFindFailed, a)
      | Inr fs \<Rightarrow>
          if fs = [] then (Some ErrNoLogFiles, a)
          else let g = fold apply_action (concat (map (\<lambda>p. fst (file_calls w clk a p)) fs))
                         (aggregator a);
                   k = sum_list (map (\<lambda>p. err_count (snd (file_calls w clk a p))) fs)
               in (if k > 0 then Some (ErrWorkers k) else None,
                   a\<lparr> aggregator :=
                        sorted_outcome (g\<lparr> stats := SetProcessingTime (stats g) elapsed \<rparr>) \<rparr>))"

text \<open>Whether the records of the files depend on the clock at all: \<open>clock_free\<close> says
  that no line of any file falls back on the current time.  \<open>untimed\<close> forgets the
  timestamp of a record.\<close>

definition clock_free :: "world \<Rightarrow> Analyzer \<Rightarrow> bool" where
  "clock_free w a =
     (\<forall>p f line now now'.
        files w p = Some f \<and> line \<in> set (f_lines f) \<longrightarrow>
          Parse (case parser a of None \<Rightarrow> DetectParser line | Some q \<Rightarrow> q)
            (lib w) now line (Base p)
          = Parse (case parser a of None \<Rightarrow> DetectParser line | Some q \<Rightarrow> q)
              (lib w) now' line (Base p))"

definition untimed :: "LogEntry \<Rightarrow> LogEntry" where
  "untimed e = e\<lparr> Timestamp := 0 \<rparr>"

section \<open>Sample surroundings for the scenarios\<close>

text \<open>A decoder that knows four well-formed structured lines and rejects every other
  text, and a world with two log files; the first file has a malformed structured
  line among its lines.\<close>

definition sample_unmarshal :: "string \<Rightarrow> jsonLogEntry option" where
  \<open>sample_unmarshal s =
     (if s = ''{"level":"INFO","message":"started"}'' then
        Some \<lparr> j_Timestamp = [], j_Time = [], j_Level = ''INFO'', j_Message = ''started'',
               j_Msg = [] \<rparr>
      else if s = ''{"level":"warn","msg":"slow"}'' then
        Some \<lparr> j_Timestamp = [], j_Time = [], j_Level = ''warn'', j_Message = [],
               j_Msg = ''slow'' \<rparr>
      else if s = ''{"level":"ERROR","message":"disk full"}'' then
        Some \<lparr> j_Timestamp = [], j_Time = [], j_Level = ''ERROR'', j_Message = ''disk full'',
               j_Msg = [] \<rparr>
      else if s = ''{"level":"TRACE","message":"x"}'' then
        Some \<lparr> j_Timestamp = [], j_Time = [], j_Level = ''TRACE'', j_Message = ''x'',
               j_Msg = [] \<rparr>
      else None)\<close>

definition sample_library :: library where
  "sample_library =
     \<lparr> unmarshal = sample_unmarshal, rfc3339 = (\<lambda>s. None), rfc3339nano = (\<lambda>s. None),
       unicode_ToUpper = (\<lambda>s. s) \<rparr>"

definition sample_file1 :: logfile where
  \<open>sample_file1 =
     \<lparr> f_lines = [''{"level":"INFO","message":"started"}'',
                  ''{"level":"warn","msg":"slow"}'',
                  ''{"level":"INFO", "message" oops}'',
                  ''{"level":"ERROR","message":"disk full"}''],
       f_scan_err = False, f_stat = Some 140 \<rparr>\<close>

definition sample_file2 :: logfile where
  \<open>sample_file2 =
     \<lparr> f_lines = [''{"level":"ERROR","message":"disk full"}'',
                  ''{"level":"INFO","message":"started"}'',
                  ''{"level":"TRACE","message":"x"}''],
       f_scan_err = False, f_stat = Some 110 \<rparr>\<close>

definition sample_files :: filesystem where
  "sample_files p =
     (if p = ''logs/a.log'' then Some sample_file1
      else if p = ''logs/sub/b.log'' then Some sample_file2 else None)"

definition sample_tree :: node where
  "sample_tree =
     Dir ''logs'' [File ''a.log'', File ''notes.txt'', Dir ''sub'' [File ''b.log'']]"

definition sample_config :: Config where
  "sample_config =
     \<lparr> Workers = 2, cfg_Level = UNKNOWN, Pattern = [], StartTime = 0, EndTime = 0,
       AutoDetect = True, cfg_ParserType = AutoDetectParser \<rparr>"

definition sample_world :: world where
  "sample_world =
     \<lparr> tree = sample_tree, files = sample_files, lib = sample_library \<rparr>"

text \<open>A directory with one file whose only line has no timestamp, a configuration with
  an end time, and the clock readings of an earlier and of a later run.\<close>

definition late_world :: world where
  "late_world =
     \<lparr> tree = Dir ''logs'' [File ''a.log''],
       files = (\<lambda>p. if p = ''logs/a.log''
                     then Some \<lparr> f_lines = [''service started''], f_scan_err = False,
                                 f_stat = Some 16 \<rparr>
                     else None),
       lib = sample_library \<rparr>"

definition late_config :: Config where
  "late_config =
     \<lparr> Workers = 1, cfg_Level = UNKNOWN, Pattern = [], StartTime = 0, EndTime = 1500,
       AutoDetect = True, cfg_ParserType = AutoDetectParser \<rparr>"

definition early_readings :: readings where
  "early_readings p n = 1000"

definition late_readings :: readings where
  "late_readings p n = 2000"

text \<open>Thirteen entries for the sorting scenario are built with \<open>tick\<close>.\<close>

definition tick :: "string \<Rightarrow> time \<Rightarrow> LogEntry" where
  "tick m t = \<lparr> Timestamp = t, Level = INFO, Message = m, Source = ''a.log'', Raw = m \<rparr>"

section \<open>Watcher (internal/watcher/watcher.go)\<close>

record WatchConfig =
  FilePath :: string
  w_Pattern :: string
  MinLevel :: LogLevel
  Interval :: int
  ShowAll :: bool

text \<open>
  The watcher keeps \<open>lastOffset\<close>; the open file handle keeps its own read position,
  which \<open>Seek\<close> sets and reading advances.  At the moment of a check the watched file
  shows its bytes, and \<open>Stat\<close> on the handle succeeds or fails.
\<close>

record Watcher =
  wconfig :: WatchConfig
  lastOffset :: int
  position :: int

record watched =
  bytes :: string
  stat_ok :: bool

definition NewWatcher :: "WatchConfig \<Rightarrow> Watcher" where
  "NewWatcher cfg = \<lparr> wconfig = cfg, lastOffset = 0, position = 0 \<rparr>"

text \<open>The part of \<open>Watch\<close> between opening the file and entering the loop: unless
  \<open>ShowAll\<close> is set, the offset becomes the file size and the handle is moved there.\<close>

definition Watch_start :: "Watcher \<Rightarrow> watched \<Rightarrow> error + Watcher" where
  "Watch_start w f =
     (if \<not> ShowAll (wconfig w) then
        (if \<not> stat_ok f then Inl ErrStatFailed
         else Inr (w\<lparr> lastOffset := int (length (bytes f)),
                       position := int (length (bytes f)) \<rparr>))
      else Inr w)"

text \<open>
  \<open>bufio.Scanner\<close> with the default split function and the default buffer limit of
  64 KiB (\<open>MaxScanTokenSize\<close>).  Lines end at a line feed, one trailing carriage
  return is dropped, and a last line without line feed is delivered when it is not
  empty.  The scanner reads the file into its buffer; when 65536 bytes are buffered
  from the start of a line without a line feed among them, it stops with an error
  that \<open>readNewLines\<close> does not look at, and the handle stays behind those 65536
  bytes.  Otherwise scanning reaches the end of the file.  \<open>Scan data\<close> gives the lines
  delivered and the number of bytes of \<open>data\<close> taken from the handle;
  \<open>scan_acc start cur\<close> has read \<open>start\<close> bytes before the current line and holds
  \<open>cur\<close> of that line.
\<close>

definition MaxScanTokenSize :: nat where
  "MaxScanTokenSize = 65536"

definition dropCR :: "string \<Rightarrow> string" where
  "dropCR l = (if l \<noteq> [] \<and> last l = CHR 0x0D then butlast l else l)"

fun scan_acc :: "nat \<Rightarrow> string \<Rightarrow> string \<Rightarrow> string list \<times> nat" where
  "scan_acc start cur [] = (if cur = [] then [] else [dropCR cur], start + length cur)"
| "scan_acc start cur (c # cs) =
     (if c = CHR 0x0A then
        (let (ls, n) = scan_acc (start + length cur + 1) [] cs in (dropCR cur # ls, n))
      else if length cur + 1 \<ge> MaxScanTokenSize then ([], start + MaxScanTokenSize)
      else scan_acc start (cur @ [c]) cs)"

definition Scan :: "string \<Rightarrow> string list \<times> nat" where
  "Scan data = scan_acc 0 [] data"

text \<open>\<open>processLine\<close>: the entry handed to \<open>displayEntry\<close>, if any.\<close>

definition processLine :: "Watcher \<Rightarrow> library \<Rightarrow> time \<Rightarrow> string \<Rightarrow> LogEntry option" where
  "processLine w lb now line =
     (if line = [] then None
      else (case Parse (DetectParser line) lb now line (FilePath (wconfig w)) of
              Inl err \<Rightarrow> None
            | Inr entry \<Rightarrow>
                if MinLevel (wconfig w) \<noteq> UNKNOWN
                   \<and> level_val (Level entry) < level_val (MinLevel (wconfig w))
                then None
                else if w_Pattern (wconfig w) \<noteq> []
                        \<and> \<not> MatchesPattern entry (w_Pattern (wconfig w))
                then None
                else Some entry))"

text \<open>
  \<open>readNewLines\<close>.  The result is the watcher afterwards together with what the step
  did: the byte position at which reading began and the bytes the scanner took from
  there (\<open>None\<close> when \<open>Stat\<close> failed and nothing was done), and the entries
  displayed.  Reading begins where the handle stands: the code moves the handle only
  when it resets the offset.
\<close>

definition readNewLines ::
    "Watcher \<Rightarrow> library \<Rightarrow> time \<Rightarrow> watched \<Rightarrow> Watcher \<times> (int \<times> string) option \<times> LogEntry list" where
  "readNewLines w lb now f =
     (if \<not> stat_ok f then (w, None, [])
      else let currentSize = int (length (bytes f));
               w1 = (if currentSize < lastOffset w
                     then w\<lparr> lastOffset := 0, position := 0 \<rparr> else w);
               data = drop (nat (position w1)) (bytes f);
               (ls, taken) = Scan data;
               shown = List.map_filter (processLine w1 lb now) ls
           in (w1\<lparr> lastOffset := currentSize, position := position w1 + int taken \<rparr>,
               Some (position w1, take taken data), shown))"

chapter \<open>Properties\<close>

section \<open>Properties of the aggregator\<close>

lemma AddBatch_Nil: "AddBatch a [] = a"
  by (simp add: AddBatch_def)

lemma AddBatch_snoc: "AddBatch a (es @ [e]) = Add (AddBatch a es) e"
  by (simp add: AddBatch_def)

lemma AddBatch_append: "AddBatch a (es @ fs) = AddBatch (AddBatch a es) fs"
  by (simp add: AddBatch_def)

lemma run_calls_AddBatch: "run_calls cs a = AddBatch a (added cs)"
proof (induction cs arbitrary: a)
  case Nil
  show ?case by (simp add: run_calls_def added_def AddBatch_def)
next
  case (Cons c cs)
  have step: "do_call a c = AddBatch a (call_entries c)"
    by (cases c) (simp_all add: AddBatch_def)
  have "run_calls (c # cs) a = run_calls cs (do_call a c)"
    by (simp add: run_calls_def)
  also have "\<dots> = AddBatch (AddBatch a (call_entries c)) (added cs)"
    using Cons.IH step by simp
  also have "\<dots> = AddBatch a (added (c # cs))"
    by (simp add: added_def AddBatch_append)
  finally show ?case .
qed

lemma entries_AddBatch: "entries (AddBatch a es) = entries a @ es"
  by (induction es rule: rev_induct) (simp_all add: AddBatch_Nil AddBatch_snoc Add_def)

lemma Total_AddEntry: "TotalEntries (AddEntry s e) = TotalEntries s + 1"
  by (simp add: AddEntry_def Let_def)

lemma LevelCounts_AddEntry: "LevelCounts (AddEntry s e) = incr (LevelCounts s) (Level e)"
  by (simp add: AddEntry_def Let_def)

lemma SourceCounts_AddEntry: "SourceCounts (AddEntry s e) = incr (SourceCounts s) (Source e)"
  by (simp add: AddEntry_def Let_def)

lemma Total_AddBatch:
  "TotalEntries (stats (AddBatch a es)) = TotalEntries (stats a) + int (length es)"
  by (induction es rule: rev_induct)
     (simp_all add: AddBatch_Nil AddBatch_snoc Add_def Total_AddEntry)

lemma lookup0_incr: "lookup0 (incr m k) k' = lookup0 m k' + (if k' = k then 1 else 0)"
  by (simp add: lookup0_def incr_def)

lemma Level_AddBatch:
  "lookup0 (LevelCounts (stats (AddBatch a es))) l =
     lookup0 (LevelCounts (stats a)) l + count_where (\<lambda>e. Level e = l) es"
  by (induction es rule: rev_induct)
     (simp_all add: AddBatch_Nil AddBatch_snoc Add_def LevelCounts_AddEntry lookup0_incr
        count_where_def)

lemma Source_AddBatch:
  "lookup0 (SourceCounts (stats (AddBatch a es))) src =
     lookup0 (SourceCounts (stats a)) src + count_where (\<lambda>e. Source e = src) es"
  by (induction es rule: rev_induct)
     (simp_all add: AddBatch_Nil AddBatch_snoc Add_def SourceCounts_AddEntry lookup0_incr
        count_where_def)


lemma dom_incr: "dom (incr m k) = insert k (dom m)"
  by (simp add: incr_def)

lemma sum_counts_incr:
  assumes "finite (dom m)"
  shows "sum_counts (incr m k0) = sum_counts m + 1"
proof (cases "k0 \<in> dom m")
  case True
  then have d: "dom (incr m k0) = dom m"
    by (auto simp: dom_incr)
  have "sum_counts (incr m k0) = (\<Sum>k\<in>dom m. lookup0 m k + (if k = k0 then 1 else 0))"
    by (simp add: sum_counts_def d lookup0_incr)
  also have "\<dots> = (\<Sum>k\<in>dom m. lookup0 m k) + (\<Sum>k\<in>dom m. if k = k0 then 1 else 0)"
    by (rule sum.distrib)
  also have "(\<Sum>k\<in>dom m. if k = k0 then 1 else 0) = (1::int)"
    using assms True by simp
  finally show ?thesis by (simp add: sum_counts_def)
next
  case False
  then have z: "lookup0 m k0 = 0"
    by (simp add: lookup0_def domIff)
  have "sum_counts (incr m k0) = (\<Sum>k\<in>insert k0 (dom m). lookup0 (incr m k0) k)"
    by (simp add: sum_counts_def dom_incr)
  also have "\<dots> = lookup0 (incr m k0) k0 + (\<Sum>k\<in>dom m. lookup0 (incr m k0) k)"
    using assms False by (rule sum.insert)
  also have "(\<Sum>k\<in>dom m. lookup0 (incr m k0) k) = (\<Sum>k\<in>dom m. lookup0 m k)"
    using False by (intro sum.cong) (auto simp: lookup0_incr)
  finally show ?thesis using z by (simp add: sum_counts_def lookup0_incr)
qed

lemma counts_AddBatch:
  assumes "finite (dom (LevelCounts (stats a)))" "finite (dom (SourceCounts (stats a)))"
  shows "finite (dom (LevelCounts (stats (AddBatch a es))))
       \<and> finite (dom (SourceCounts (stats (AddBatch a es))))
       \<and> sum_counts (LevelCounts (stats (AddBatch a es)))
           = sum_counts (LevelCounts (stats a)) + int (length es)
       \<and> sum_counts (SourceCounts (stats (AddBatch a es)))
           = sum_counts (SourceCounts (stats a)) + int (length es)"
proof (induction es rule: rev_induct)
  case Nil
  show ?case using assms by (simp add: AddBatch_Nil)
next
  case (snoc e es)
  then show ?case
    by (simp add: AddBatch_snoc Add_def LevelCounts_AddEntry SourceCounts_AddEntry
        sum_counts_incr dom_incr)
qed

lemma First_AddEntry:
  "FirstTimestamp (AddEntry s e) =
     (if FirstTimestamp s = 0 \<or> Timestamp e < FirstTimestamp s then Timestamp e
      else FirstTimestamp s)"
  by (simp add: AddEntry_def Let_def IsZero_def Before_def After_def)

lemma Last_AddEntry: "LastTimestamp (AddEntry s e) = max (LastTimestamp s) (Timestamp e)"
  by (simp add: AddEntry_def Let_def IsZero_def Before_def After_def max_def)

lemma First_AddBatch:
  assumes "\<forall>e\<in>set es. Timestamp e \<noteq> 0" "es \<noteq> []"
  shows "FirstTimestamp (stats (AddBatch NewAggregator es)) = Min (Timestamp ` set es)"
  using assms
proof (induction es rule: rev_induct)
  case Nil
  then show ?case by simp
next
  case (snoc e es)
  show ?case
  proof (cases "es = []")
    case True
    then show ?thesis
      by (simp add: AddBatch_def Add_def First_AddEntry NewAggregator_def NewStatistics_def)
  next
    case False
    let ?F = "FirstTimestamp (stats (AddBatch NewAggregator es))"
    have ih: "?F = Min (Timestamp ` set es)"
      using snoc False by simp
    have "Min (Timestamp ` set es) \<in> Timestamp ` set es"
      using False by (intro Min_in) simp_all
    then have nz: "?F \<noteq> 0"
      using snoc.prems(1) ih by auto
    have "FirstTimestamp (stats (AddBatch NewAggregator (es @ [e]))) = min (Timestamp e) ?F"
      using nz by (simp add: AddBatch_snoc Add_def First_AddEntry min_def)
    also have "\<dots> = Min (Timestamp ` set (es @ [e]))"
      using False ih by simp
    finally show ?thesis .
  qed
qed

lemma Last_AddBatch:
  "LastTimestamp (stats (AddBatch NewAggregator es)) = Max (insert 0 (Timestamp ` set es))"
proof (induction es rule: rev_induct)
  case Nil
  show ?case by (simp add: AddBatch_Nil NewAggregator_def NewStatistics_def)
next
  case (snoc e es)
  have "Max (insert 0 (Timestamp ` set (es @ [e])))
          = Max (insert (Timestamp e) (insert 0 (Timestamp ` set es)))"
    by (simp add: insert_commute)
  also have "\<dots> = max (Timestamp e) (Max (insert 0 (Timestamp ` set es)))"
    by (rule Max_insert) simp_all
  finally show ?case
    using snoc by (simp add: AddBatch_snoc Add_def Last_AddEntry max.commute)
qed

lemma Last_AddBatch_Max:
  assumes "\<exists>e\<in>set es. 0 \<le> Timestamp e"
  shows "LastTimestamp (stats (AddBatch NewAggregator es)) = Max (Timestamp ` set es)"
proof -
  from assms obtain e where e: "e \<in> set es" "0 \<le> Timestamp e" by blast
  have fin: "finite (Timestamp ` set es)" and ne: "Timestamp ` set es \<noteq> {}"
    using e by auto
  have "Timestamp e \<le> Max (Timestamp ` set es)"
    using e by (intro Max_ge) simp_all
  then have "0 \<le> Max (Timestamp ` set es)" using e by linarith
  moreover have "Max (insert 0 (Timestamp ` set es)) = max 0 (Max (Timestamp ` set es))"
    using fin ne by (rule Max_insert)
  ultimately show ?thesis by (simp add: Last_AddBatch max_def)
qed

text \<open>
  Claim C1.  After any finite sequence of \<open>Add\<close> and \<open>AddBatch\<close> calls on a fresh
  aggregator (the calls of all contributors, in the order in which they take the lock),
  the aggregator holds exactly the entries added; \<open>TotalEntries\<close> is their number and is
  the sum of the per-level counts and the sum of the per-source counts; the count of a
  level or of a source is the number of added entries with that level or source.
  \<open>FirstTimestamp\<close> is the minimum timestamp provided something was added and no added
  entry carries the zero time, which the code uses as its "not yet set" marker;
  \<open>LastTimestamp\<close> is the maximum timestamp provided some added entry is not before
  the zero time, the value the field starts from.
\<close>

theorem aggregator_statistics_consistent:
  "entries (run_calls cs NewAggregator) = added cs
   \<and> TotalEntries (stats (run_calls cs NewAggregator)) = int (length (added cs))
   \<and> sum_counts (LevelCounts (stats (run_calls cs NewAggregator))) = int (length (added cs))
   \<and> sum_counts (SourceCounts (stats (run_calls cs NewAggregator))) = int (length (added cs))
   \<and> (\<forall>l. lookup0 (LevelCounts (stats (run_calls cs NewAggregator))) l
            = count_where (\<lambda>e. Level e = l) (added cs))
   \<and> (\<forall>src. lookup0 (SourceCounts (stats (run_calls cs NewAggregator))) src
            = count_where (\<lambda>e. Source e = src) (added cs))
   \<and> (added cs \<noteq> [] \<and> (\<forall>e\<in>set (added cs). Timestamp e \<noteq> 0) \<longrightarrow>
        FirstTimestamp (stats (run_calls cs NewAggregator)) = Min (Timestamp ` set (added cs)))
   \<and> ((\<exists>e\<in>set (added cs). 0 \<le> Timestamp e) \<longrightarrow>
        LastTimestamp (stats (run_calls cs NewAggregator)) = Max (Timestamp ` set (added cs)))"
proof -
  have fresh: "finite (dom (LevelCounts (stats NewAggregator)))"
    "finite (dom (SourceCounts (stats NewAggregator)))"
    "sum_counts (LevelCounts (stats NewAggregator)) = 0"
    "sum_counts (SourceCounts (stats NewAggregator)) = 0"
    "TotalEntries (stats NewAggregator) = 0"
    "entries NewAggregator = []"
    "\<And>l. lookup0 (LevelCounts (stats NewAggregator)) l = 0"
    "\<And>src. lookup0 (SourceCounts (stats NewAggregator)) src = 0"
    by (simp_all add: NewAggregator_def NewStatistics_def sum_counts_def lookup0_def)
  have 1: "entries (run_calls cs NewAggregator) = added cs"
    by (simp add: run_calls_AddBatch entries_AddBatch fresh)
  have 2: "TotalEntries (stats (run_calls cs NewAggregator)) = int (length (added cs))"
    by (simp add: run_calls_AddBatch Total_AddBatch fresh)
  have 3: "sum_counts (LevelCounts (stats (run_calls cs NewAggregator))) = int (length (added cs))"
    and 4: "sum_counts (SourceCounts (stats (run_calls cs NewAggregator))) = int (length (added cs))"
    using counts_AddBatch [OF fresh(1) fresh(2), of "added cs"]
    by (simp_all add: run_calls_AddBatch fresh)
  have 5: "\<forall>l. lookup0 (LevelCounts (stats (run_calls cs NewAggregator))) l
            = count_where (\<lambda>e. Level e = l) (added cs)"
    by (simp add: run_calls_AddBatch Level_AddBatch fresh)
  have 6: "\<forall>src. lookup0 (SourceCounts (stats (run_calls cs NewAggregator))) src
            = count_where (\<lambda>e. Source e = src) (added cs)"
    by (simp add: run_calls_AddBatch Source_AddBatch fresh)
  have 7: "added cs \<noteq> [] \<and> (\<forall>e\<in>set (added cs). Timestamp e \<noteq> 0) \<longrightarrow>
        FirstTimestamp (stats (run_calls cs NewAggregator)) = Min (Timestamp ` set (added cs))"
    by (simp add: run_calls_AddBatch First_AddBatch)
  have 8: "(\<exists>e\<in>set (added cs). 0 \<le> Timestamp e) \<longrightarrow>
        LastTimestamp (stats (run_calls cs NewAggregator)) = Max (Timestamp ` set (added cs))"
    using Last_AddBatch_Max [of "added cs"] by (simp add: run_calls_AddBatch)
  from 1 2 3 4 5 6 7 8 show ?thesis by blast
qed

theorem aggregator_statistics_consistent_witness:
  "FirstTimestamp (stats (run_calls
       [CallAdd \<lparr>Timestamp = 5, Level = INFO, Message = ''a'', Source = ''f.log'', Raw = ''a''\<rparr>,
        CallAddBatch
         [\<lparr>Timestamp = 3, Level = ERROR, Message = ''b'', Source = ''g.log'', Raw = ''b''\<rparr>,
          \<lparr>Timestamp = 9, Level = INFO, Message = ''c'', Source = ''f.log'', Raw = ''c''\<rparr>]]
       NewAggregator)) = 3
   \<and> LastTimestamp (stats (run_calls
       [CallAdd \<lparr>Timestamp = 5, Level = INFO, Message = ''a'', Source = ''f.log'', Raw = ''a''\<rparr>,
        CallAddBatch
         [\<lparr>Timestamp = 3, Level = ERROR, Message = ''b'', Source = ''g.log'', Raw = ''b''\<rparr>,
          \<lparr>Timestamp = 9, Level = INFO, Message = ''c'', Source = ''f.log'', Raw = ''c''\<rparr>]]
       NewAggregator)) = 9
   \<and> lookup0 (LevelCounts (stats (run_calls
       [CallAdd \<lparr>Timestamp = 5, Level = INFO, Message = ''a'', Source = ''f.log'', Raw = ''a''\<rparr>,
        CallAddBatch
         [\<lparr>Timestamp = 3, Level = ERROR, Message = ''b'', Source = ''g.log'', Raw = ''b''\<rparr>,
          \<lparr>Timestamp = 9, Level = INFO, Message = ''c'', Source = ''f.log'', Raw = ''c''\<rparr>]]
       NewAggregator))) INFO = 2"
  using aggregator_statistics_consistent [of
       "[CallAdd \<lparr>Timestamp = 5, Level = INFO, Message = ''a'', Source = ''f.log'', Raw = ''a''\<rparr>,
        CallAddBatch
         [\<lparr>Timestamp = 3, Level = ERROR, Message = ''b'', Source = ''g.log'', Raw = ''b''\<rparr>,
          \<lparr>Timestamp = 9, Level = INFO, Message = ''c'', Source = ''f.log'', Raw = ''c''\<rparr>]]"]
  by (simp add: added_def count_where_def)

text \<open>
  The timestamp part of the claim without the proviso fails: an entry stamped with the
  zero time followed by a later one leaves \<open>FirstTimestamp\<close> at the later time, and
  an entry before the zero time never reaches \<open>LastTimestamp\<close>.
\<close>

theorem aggregator_first_timestamp_counterexample:
  "FirstTimestamp (stats (run_calls
       [CallAdd \<lparr>Timestamp = 0, Level = INFO, Message = ''a'', Source = ''f.log'', Raw = ''a''\<rparr>,
        CallAdd \<lparr>Timestamp = 5, Level = INFO, Message = ''b'', Source = ''f.log'', Raw = ''b''\<rparr>]
       NewAggregator)) = 5
   \<and> Min (Timestamp ` set (added
       [CallAdd \<lparr>Timestamp = 0, Level = INFO, Message = ''a'', Source = ''f.log'', Raw = ''a''\<rparr>,
        CallAdd \<lparr>Timestamp = 5, Level = INFO, Message = ''b'', Source = ''f.log'', Raw = ''b''\<rparr>]))
      = 0"
  by (simp add: run_calls_def added_def Add_def AddEntry_def Let_def NewAggregator_def
      NewStatistics_def IsZero_def Before_def After_def)

section \<open>Properties of the record model, the filter and the parsers\<close>

lemma findSubstring_sublist:
  "findSubstring s p \<longleftrightarrow> sublist p s"
proof (induction s p rule: findSubstring.induct)
  case (1 s substr)
  show ?case
  proof (cases "length s < length substr")
    case True
    then have "\<not> sublist substr s"
      by (auto simp: sublist_def)
    with True show ?thesis by simp
  next
    case False
    note len = False
    show ?thesis
    proof (cases "take (length substr) s = substr")
      case True
      then have "prefix substr s" by (metis take_is_prefix)
      then have "sublist substr s" by (rule prefix_imp_sublist)
      with len True show ?thesis by simp
    next
      case ntake: False
      then have np: "\<not> prefix substr s"
        by (metis append_eq_conv_conj prefix_def)
      show ?thesis
      proof (cases s)
        case Nil
        with len ntake show ?thesis by simp
      next
        case (Cons c s')
        have "findSubstring s substr = findSubstring s' substr"
          using len ntake Cons by simp
        also have "\<dots> = sublist substr s'"
          using 1 len ntake Cons by simp
        also have "\<dots> = sublist substr s"
          using np Cons by (simp add: sublist_Cons_right)
        finally show ?thesis .
      qed
    qed
  qed
qed

lemma contains_sublist: "contains s p \<longleftrightarrow> sublist p s"
proof -
  have "sublist p s \<Longrightarrow> length p \<le> length s"
    by (auto simp: sublist_def)
  then show ?thesis
    by (auto simp: contains_def findSubstring_sublist simp del: findSubstring.simps)
qed

text \<open>
  Claim C2.  \<open>shouldInclude\<close> accepts a record exactly when the minimum level is unset
  (\<open>UNKNOWN\<close>) or the record's severity is at least the minimum, and the pattern is
  unset (empty) or occurs as a contiguous substring of the message or of the raw text,
  and the start time is unset (zero) or the record's timestamp is not before it, and
  the end time is unset (zero) or the record's timestamp is not after it.
\<close>

theorem shouldInclude_iff:
  "shouldInclude cfg entry \<longleftrightarrow>
     (cfg_Level cfg = UNKNOWN \<or> level_val (Level entry) \<ge> level_val (cfg_Level cfg))
   \<and> (Pattern cfg = [] \<or> sublist (Pattern cfg) (Message entry)
        \<or> sublist (Pattern cfg) (Raw entry))
   \<and> (IsZero (StartTime cfg) \<or> \<not> Before (Timestamp entry) (StartTime cfg))
   \<and> (IsZero (EndTime cfg) \<or> \<not> After (Timestamp entry) (EndTime cfg))"
  by (auto simp: shouldInclude_def MatchesPattern_def contains_sublist)

theorem shouldInclude_iff_witness:
  "shouldInclude
     \<lparr> Workers = 4, cfg_Level = WARN, Pattern = ''disk'', StartTime = 10, EndTime = 0,
       AutoDetect = True, cfg_ParserType = AutoDetectParser \<rparr>
     \<lparr> Timestamp = 12, Level = ERROR, Message = ''disk full'', Source = ''a.log'',
       Raw = ''ERROR: disk full'' \<rparr>
   \<and> \<not> Before 12 10"
  using shouldInclude_iff [of
     "\<lparr> Workers = 4, cfg_Level = WARN, Pattern = ''disk'', StartTime = 10, EndTime = 0,
       AutoDetect = True, cfg_ParserType = AutoDetectParser \<rparr>"
     "\<lparr> Timestamp = 12, Level = ERROR, Message = ''disk full'', Source = ''a.log'',
       Raw = ''ERROR: disk full'' \<rparr>"]
  by (simp add: IsZero_def Before_def After_def)

text \<open>
  Claim C10.  A record whose level is the \<open>UNKNOWN\<close> sentinel compares greater than
  \<open>FATAL\<close>, so the minimum-level check of \<open>shouldInclude\<close> never rejects it, whatever
  minimum is configured: the decision is the one taken with no minimum level at all.
\<close>

theorem unknown_level_never_excluded:
  assumes "Level entry = UNKNOWN"
  shows "level_val FATAL < level_val (Level entry)
       \<and> \<not> (cfg_Level cfg \<noteq> UNKNOWN
             \<and> level_val (Level entry) < level_val (cfg_Level cfg))
       \<and> shouldInclude cfg entry = shouldInclude (cfg\<lparr> cfg_Level := UNKNOWN \<rparr>) entry"
proof -
  have "level_val (cfg_Level cfg) \<le> 5"
    by (cases "cfg_Level cfg") simp_all
  then show ?thesis
    using assms by (simp add: shouldInclude_def)
qed

theorem unknown_level_never_excluded_witness:
  "Level \<lparr> Timestamp = 12, Level = UNKNOWN, Message = ''m'', Source = ''a.log'',
           Raw = ''{}'' \<rparr> = UNKNOWN
   \<and> shouldInclude
       \<lparr> Workers = 4, cfg_Level = FATAL, Pattern = [], StartTime = 0, EndTime = 0,
         AutoDetect = True, cfg_ParserType = AutoDetectParser \<rparr>
       \<lparr> Timestamp = 12, Level = UNKNOWN, Message = ''m'', Source = ''a.log'',
         Raw = ''{}'' \<rparr>"
  using unknown_level_never_excluded [of
       "\<lparr> Timestamp = 12, Level = UNKNOWN, Message = ''m'', Source = ''a.log'',
         Raw = ''{}'' \<rparr>"
       "\<lparr> Workers = 4, cfg_Level = FATAL, Pattern = [], StartTime = 0, EndTime = 0,
         AutoDetect = True, cfg_ParserType = AutoDetectParser \<rparr>"]
  by (simp add: shouldInclude_def IsZero_def)

text \<open>
  Claim C7.  The free-text parser turns the line
  \<open>[2024-01-20 15:04:05] ERROR: disk full\<close>, for every source label and whatever the
  clock reads, into a record with level \<open>ERROR\<close>, message \<open>disk full\<close> and the
  timestamp 2024-01-20T15:04:05 (UTC).
\<close>

theorem plain_parse_scenario:
  "PlainText_Parse lb now ''[2024-01-20 15:04:05] ERROR: disk full'' source =
     Inr \<lparr> Timestamp = Date 2024 1 20 15 4 5 0, Level = ERROR, Message = ''disk full'',
           Source = source, Raw = ''[2024-01-20 15:04:05] ERROR: disk full'' \<rparr>"
  by code_simp

lemma space_prefix_zero:
  "[] \<notin> set qs \<Longrightarrow> q \<in> set qs \<Longrightarrow> prefix q s \<Longrightarrow> space_prefix qs s \<noteq> 0"
  by (induction qs) auto

lemma space_prefix_pos:
  "space_prefix qs s \<noteq> 0 \<Longrightarrow> \<exists>q\<in>set qs. prefix q s \<and> space_prefix qs s = length q"
  by (induction qs) (auto split: if_splits)

lemma trim_left_Nil: "trim_left qs [] = []"
proof -
  have "space_prefix qs [] \<le> length ([] :: string)"
    by (induction qs) (simp_all add: prefix_length_le)
  then show ?thesis by (subst trim_left.simps) simp
qed

text \<open>What \<open>trim_left\<close> leaves begins with none of the encodings, and what it removes is
  a sequence of encodings.\<close>

lemma trim_left_result:
  "\<exists>ps. set ps \<subseteq> set qs \<and> s = concat ps @ trim_left qs s
        \<and> space_prefix qs (trim_left qs s) = 0"
proof (induction qs s rule: trim_left.induct)
  case (1 qs s)
  show ?case
  proof (cases "space_prefix qs s = 0")
    case True
    then have "trim_left qs s = s"
      by (subst trim_left.simps) simp
    with True have "set [] \<subseteq> set qs \<and> s = concat [] @ trim_left qs s
        \<and> space_prefix qs (trim_left qs s) = 0"
      by simp
    then show ?thesis by blast
  next
    case False
    then obtain q where q: "q \<in> set qs" "prefix q s" "space_prefix qs s = length q"
      using space_prefix_pos by blast
    from 1 [OF False] obtain ps where ps: "set ps \<subseteq> set qs"
      "drop (space_prefix qs s) s = concat ps @ trim_left qs (drop (space_prefix qs s) s)"
      "space_prefix qs (trim_left qs (drop (space_prefix qs s) s)) = 0"
      by blast
    have tl: "trim_left qs s = trim_left qs (drop (space_prefix qs s) s)"
      using False by (subst trim_left.simps) simp
    have "s = q @ drop (length q) s"
      using q(2) by (metis append_eq_conv_conj prefix_def)
    then have "s = concat (q # ps) @ trim_left qs s"
      using ps(2) q(3) tl by simp
    moreover have "set (q # ps) \<subseteq> set qs" using q(1) ps(1) by simp
    ultimately show ?thesis using ps(3) tl by metis
  qed
qed

lemma trim_left_concat:
  assumes pf: "\<forall>q\<in>set qs. \<forall>q'\<in>set qs. prefix q q' \<longrightarrow> q = q'"
      and ne: "[] \<notin> set qs"
  shows "set ps \<subseteq> set qs \<Longrightarrow> trim_left qs (concat ps @ t) = trim_left qs t"
proof (induction ps)
  case Nil
  show ?case by simp
next
  case (Cons p ps)
  let ?s = "concat (p # ps) @ t"
  have p: "p \<in> set qs" "p \<noteq> []" using Cons.prems ne by auto
  have pp: "prefix p ?s" by simp
  have nz: "space_prefix qs ?s \<noteq> 0"
    using space_prefix_zero [of qs p ?s] ne p pp by blast
  then obtain q where q: "q \<in> set qs" "prefix q ?s" "space_prefix qs ?s = length q"
    using space_prefix_pos by blast
  have "prefix p q \<or> prefix q p"
    using pp q(2) by (rule prefix_same_cases)
  then have "q = p" using pf p(1) q(1) by blast
  then have "drop (space_prefix qs ?s) ?s = concat ps @ t"
    using q(3) by simp
  moreover have "trim_left qs ?s = trim_left qs (drop (space_prefix qs ?s) ?s)"
    using nz by (subst trim_left.simps) simp
  ultimately show ?case using Cons by simp
qed

lemma space_runes_prefix_free:
  "\<forall>q\<in>set space_runes. \<forall>q'\<in>set space_runes. prefix q q' \<longrightarrow> q = q'"
proof -
  have "list_all (\<lambda>q. list_all (\<lambda>q'. prefix q q' \<longrightarrow> q = q') space_runes) space_runes"
    by code_simp
  then show ?thesis by (simp add: list_all_iff)
qed

lemma space_runes_nonempty: "[] \<notin> set space_runes"
  by (simp add: space_runes_def)

lemma TrimSpace_empty_iff: "TrimSpace s = [] \<longleftrightarrow> white_space s"
proof
  assume "white_space s"
  then obtain ps where ps: "set ps \<subseteq> set space_runes" "concat ps = s"
    by (auto simp: white_space_def)
  have "trim_left space_runes (concat ps @ []) = trim_left space_runes []"
    using space_runes_prefix_free space_runes_nonempty ps(1) by (rule trim_left_concat)
  then have "TrimLeft s = []"
    using ps(2) by (simp add: TrimLeft_def trim_left_Nil)
  then show "TrimSpace s = []"
    by (simp add: TrimSpace_def TrimRight_def trim_left_Nil)
next
  assume e: "TrimSpace s = []"
  let ?t = "trim_left space_runes s"
  obtain ps where ps: "set ps \<subseteq> set space_runes" "s = concat ps @ ?t"
    "space_prefix space_runes ?t = 0"
    using trim_left_result [of space_runes s] by blast
  from e have r: "trim_left (map rev space_runes) (rev ?t) = []"
    by (simp add: TrimSpace_def TrimRight_def TrimLeft_def)
  obtain rs where rs: "set rs \<subseteq> set (map rev space_runes)"
    "rev ?t = concat rs @ trim_left (map rev space_runes) (rev ?t)"
    using trim_left_result [of "map rev space_runes" "rev ?t"] by blast
  have "rev ?t = concat rs"
    using rs(2) r by simp
  then have "?t = rev (concat rs)"
    by (simp add: rev_swap)
  then have t: "?t = concat (map rev (rev rs))"
    by (simp add: rev_concat)
  have mem: "\<forall>x\<in>set rs. rev x \<in> set space_runes"
    using rs(1) by auto
  have "?t = []"
  proof (cases "rev rs")
    case Nil
    then show ?thesis using t by simp
  next
    case (Cons x xs)
    then have "x \<in> set rs"
      by (metis list.set_intros(1) set_rev)
    then have "rev x \<in> set space_runes"
      using mem by blast
    moreover have "prefix (rev x) ?t"
      using t Cons by simp
    ultimately have "space_prefix space_runes ?t \<noteq> 0"
      using space_prefix_zero [OF space_runes_nonempty] by blast
    with ps(3) show ?thesis by simp
  qed
  then show "white_space s"
    using ps(1,2) by (auto simp: white_space_def)
qed

text \<open>
  Claim C8, as the code has it.  The free-text parser's \<open>CanParse\<close> accepts exactly the
  lines that do not consist of white space only (white space as Unicode defines it);
  it rejects the empty line and lines of white space only, the same lines its
  \<open>Parse\<close> refuses as empty.
\<close>

theorem plain_CanParse_iff: "PlainText_CanParse line \<longleftrightarrow> \<not> white_space line"
  by (simp add: PlainText_CanParse_def TrimSpace_empty_iff)

theorem plain_CanParse_iff_witness:
  "PlainText_CanParse ''disk full'' \<and> \<not> white_space ''disk full''"
proof -
  have "PlainText_CanParse ''disk full''" by code_simp
  with plain_CanParse_iff [of "''disk full''"] show ?thesis by simp
qed

theorem plain_CanParse_counterexample:
  "\<not> PlainText_CanParse [] \<and> \<not> PlainText_CanParse ''   ''
   \<and> \<not> PlainText_CanParse [CHR 0xC2, CHR 0xA0]"
  by code_simp

section \<open>Properties of the analyzer\<close>

lemma entries_apply_action: "entries (apply_action c a) = entries a @ call_records c"
  by (cases c) (simp_all add: entries_AddBatch)

lemma entries_fold_apply:
  "entries (fold apply_action cs a) = entries a @ concat (map call_records cs)"
  by (induction cs arbitrary: a) (simp_all add: entries_apply_action)

lemma Total_apply_action:
  "TotalEntries (stats (apply_action c a)) = TotalEntries (stats a) + int (length (call_records c))"
  by (cases c) (simp_all add: Total_AddBatch AddFile_def)

lemma Total_fold_apply:
  "TotalEntries (stats (fold apply_action cs a))
     = TotalEntries (stats a) + int (length (concat (map call_records cs)))"
  by (induction cs arbitrary: a) (simp_all add: Total_apply_action)

lemma file_records_Nil: "file_records a lb clk src n [] = []"
  by (simp add: file_records_def List.map_filter_simps)

lemma file_records_Cons:
  "file_records a lb clk src n (l # ls) =
     (case line_record a lb clk src (Suc n) l of None \<Rightarrow> [] | Some e \<Rightarrow> [e])
     @ file_records a lb clk src (Suc n) ls"
  by (simp add: file_records_def List.map_filter_simps split: option.split)

lemma scan_step:
  "concat (map call_records (scan_loop a lb clk src (l # ls) n buf)) =
     (case line_record a lb clk src (Suc n) l of
        None \<Rightarrow> concat (map call_records (scan_loop a lb clk src ls (Suc n) buf))
      | Some e \<Rightarrow>
          (if length (buf @ [e]) \<ge> 1000
           then buf @ [e] @ concat (map call_records (scan_loop a lb clk src ls (Suc n) []))
           else concat (map call_records (scan_loop a lb clk src ls (Suc n) (buf @ [e])))))"
  by (cases "Parse (case parser a of None \<Rightarrow> DetectParser l | Some p \<Rightarrow> p) lb (clk (Suc n)) l src")
     (simp_all add: line_record_def Let_def)

lemma scan_loop_records:
  "concat (map call_records (scan_loop a lb clk src ls n buf))
     = buf @ file_records a lb clk src n ls"
proof (induction ls arbitrary: n buf)
  case Nil
  show ?case by (simp add: file_records_Nil)
next
  case (Cons l ls)
  show ?case
  proof (cases "line_record a lb clk src (Suc n) l")
    case None
    then show ?thesis
      by (simp only: scan_step Cons.IH file_records_Cons option.case append_Nil)
  next
    case (Some e)
    then show ?thesis
      by (simp only: scan_step Cons.IH file_records_Cons option.case append_Nil
            append_assoc append_Cons if_cancel)
  qed
qed

lemma AnalyzeFile_keeps_config:
  "config (snd (AnalyzeFile a lb clk fsys p)) = config a
   \<and> parser (snd (AnalyzeFile a lb clk fsys p)) = parser a"
  by (simp add: AnalyzeFile_def split: prod.split)

lemma file_records_cong:
  assumes "config b = config a" "parser b = parser a"
  shows "file_records b lb clk src n ls = file_records a lb clk src n ls"
proof -
  have "line_record b lb clk src = line_record a lb clk src"
    by (intro ext) (simp add: line_record_def assms cong: option.case_cong sum.case_cong)
  then show ?thesis by (simp add: file_records_def)
qed

text \<open>
  Claim C4.  For a file that can be opened and examined, \<open>AnalyzeFile\<close> adds to the
  aggregator exactly the records of the lines that are not empty, parse, and pass the
  filters, in order; a line that is empty or fails to parse yields no record, and
  the call returns an error only when the scanner reports one, never for a line
  that fails to parse.  In the scenario of two files with three well-formed structured
  lines each, the first with one more, malformed, structured line, this gives six
  aggregated entries and no error.
\<close>

theorem AnalyzeFile_skips_unparsed_lines:
  assumes "fsys filePath = Some f" and "f_stat f = Some fsize"
  shows "entries (aggregator (snd (AnalyzeFile a lb clk fsys filePath)))
           = entries (aggregator a) @ file_records a lb clk (Base filePath) 0 (f_lines f)
       \<and> TotalEntries (stats (aggregator (snd (AnalyzeFile a lb clk fsys filePath))))
           = TotalEntries (stats (aggregator a))
             + int (length (file_records a lb clk (Base filePath) 0 (f_lines f)))
       \<and> fst (AnalyzeFile a lb clk fsys filePath)
           = (if f_scan_err f then Some ErrReadFailed else None)
       \<and> (\<forall>n line e. line = []
             \<or> Parse (case parser a of None \<Rightarrow> DetectParser line | Some p \<Rightarrow> p)
                  lb (clk n) line (Base filePath) = Inl e
             \<longrightarrow> line_record a lb clk (Base filePath) n line = None)"
proof -
  let ?calls = "scan_loop a lb clk (Base filePath) (f_lines f) 0 []"
  have calls: "AnalyzeFile_calls a lb clk fsys filePath =
      (if f_scan_err f then (?calls, Some ErrReadFailed) else (?calls @ [DoAddFile fsize], None))"
    using assms by (simp add: AnalyzeFile_calls_def Let_def)
  have recs: "concat (map call_records ?calls) = file_records a lb clk (Base filePath) 0 (f_lines f)"
    by (simp add: scan_loop_records)
  have 1: "entries (aggregator (snd (AnalyzeFile a lb clk fsys filePath)))
           = entries (aggregator a) @ file_records a lb clk (Base filePath) 0 (f_lines f)"
    using recs by (simp add: AnalyzeFile_def calls entries_fold_apply entries_apply_action)
  have 2: "TotalEntries (stats (aggregator (snd (AnalyzeFile a lb clk fsys filePath))))
           = TotalEntries (stats (aggregator a))
             + int (length (file_records a lb clk (Base filePath) 0 (f_lines f)))"
    using recs by (simp add: AnalyzeFile_def calls Total_fold_apply AddFile_def)
  have 3: "fst (AnalyzeFile a lb clk fsys filePath)
           = (if f_scan_err f then Some ErrReadFailed else None)"
    by (simp add: AnalyzeFile_def calls)
  have 4: "\<forall>n line e. line = []
             \<or> Parse (case parser a of None \<Rightarrow> DetectParser line | Some p \<Rightarrow> p)
                  lb (clk n) line (Base filePath) = Inl e
             \<longrightarrow> line_record a lb clk (Base filePath) n line = None"
    by (auto simp: line_record_def)
  from 1 2 3 4 show ?thesis by blast
qed

theorem AnalyzeFile_skips_unparsed_lines_witness:
  "fst (AnalyzeFile (NewAnalyzer sample_config) sample_library (\<lambda>n. 1000 + int n)
          sample_files ''logs/a.log'') = None
   \<and> fst (AnalyzeFile
          (snd (AnalyzeFile (NewAnalyzer sample_config) sample_library (\<lambda>n. 1000 + int n)
                  sample_files ''logs/a.log''))
          sample_library (\<lambda>n. 2000 + int n) sample_files ''logs/sub/b.log'') = None
   \<and> length (entries (aggregator (snd (AnalyzeFile
          (snd (AnalyzeFile (NewAnalyzer sample_config) sample_library (\<lambda>n. 1000 + int n)
                  sample_files ''logs/a.log''))
          sample_library (\<lambda>n. 2000 + int n) sample_files ''logs/sub/b.log'')))) = 6
   \<and> length (f_lines sample_file1) + length (f_lines sample_file2) = 7"
proof -
  let ?a0 = "NewAnalyzer sample_config"
  let ?a1 = "snd (AnalyzeFile ?a0 sample_library (\<lambda>n. 1000 + int n) sample_files ''logs/a.log'')"
  have o1: "sample_files ''logs/a.log'' = Some sample_file1"
    and o2: "sample_files ''logs/sub/b.log'' = Some sample_file2"
    by (simp_all add: sample_files_def)
  have s1: "f_stat sample_file1 = Some 140" and s2: "f_stat sample_file2 = Some 110"
    by (simp_all add: sample_file1_def sample_file2_def)
  note t1 = AnalyzeFile_skips_unparsed_lines [of sample_files "''logs/a.log''" sample_file1 140
      ?a0 sample_library "\<lambda>n. 1000 + int n", OF o1 s1]
  note t2 = AnalyzeFile_skips_unparsed_lines [of sample_files "''logs/sub/b.log''" sample_file2 110
      ?a1 sample_library "\<lambda>n. 2000 + int n", OF o2 s2]
  have r1: "length (file_records ?a0 sample_library (\<lambda>n. 1000 + int n) (Base ''logs/a.log'') 0
              (f_lines sample_file1)) = 3"
    by code_simp
  have "file_records ?a1 sample_library (\<lambda>n. 2000 + int n) (Base ''logs/sub/b.log'') 0
              (f_lines sample_file2)
        = file_records ?a0 sample_library (\<lambda>n. 2000 + int n) (Base ''logs/sub/b.log'') 0
              (f_lines sample_file2)"
    by (rule file_records_cong) (simp_all add: AnalyzeFile_keeps_config)
  moreover have "length (file_records ?a0 sample_library (\<lambda>n. 2000 + int n)
              (Base ''logs/sub/b.log'') 0 (f_lines sample_file2)) = 3"
    by code_simp
  ultimately have r2: "length (file_records ?a1 sample_library (\<lambda>n. 2000 + int n)
              (Base ''logs/sub/b.log'') 0 (f_lines sample_file2)) = 3"
    by simp
  have e0: "entries (aggregator ?a0) = []"
    by (simp add: NewAnalyzer_def NewAggregator_def)
  have l: "length (f_lines sample_file1) + length (f_lines sample_file2) = 7"
    by (simp add: sample_file1_def sample_file2_def)
  have n1: "\<not> f_scan_err sample_file1" and n2: "\<not> f_scan_err sample_file2"
    by (simp_all add: sample_file1_def sample_file2_def)
  from t1 t2 r1 r2 e0 l n1 n2 show ?thesis by simp
qed

text \<open>
  Claim C9.  When the enumeration of the directory finds no file with the extension
  \<open>.log\<close>, \<open>AnalyzeDirectory\<close> has one outcome only: it returns the "no log files
  found" error and leaves the analyzer, and with it the aggregator, as it was; no
  worker is started and no file is processed.
\<close>

theorem AnalyzeDirectory_no_files:
  assumes "findLogFiles (tree w) dirPath = Inr []"
  shows "AnalyzeDirectory w clk dirPath a (Some ErrNoLogFiles, a)
       \<and> (\<forall>r. AnalyzeDirectory w clk dirPath a r \<longrightarrow> r = (Some ErrNoLogFiles, a))
       \<and> (\<forall>r. AnalyzeDirectory w clk dirPath (NewAnalyzer cfg) r \<longrightarrow>
              fst r = Some ErrNoLogFiles \<and> aggregator (snd r) = NewAggregator
              \<and> entries (aggregator (snd r)) = [])"
proof -
  have 1: "AnalyzeDirectory w clk dirPath a (Some ErrNoLogFiles, a)"
    using assms by (rule AnalyzeDirectory.no_files)
  have 2: "r = (Some ErrNoLogFiles, b)" if "AnalyzeDirectory w clk dirPath b r" for r b
    using that assms by (cases rule: AnalyzeDirectory.cases) simp_all
  have 3: "fst r = Some ErrNoLogFiles \<and> aggregator (snd r) = NewAggregator
              \<and> entries (aggregator (snd r)) = []"
    if "AnalyzeDirectory w clk dirPath (NewAnalyzer cfg) r" for r
    using 2 [OF that] by (simp add: NewAnalyzer_def NewAggregator_def)
  from 1 2 3 show ?thesis by blast
qed

theorem AnalyzeDirectory_no_files_witness:
  "findLogFiles (tree (sample_world\<lparr> tree := Dir ''logs'' [File ''notes.txt'', Dir ''old.log'' []] \<rparr>))
      ''logs'' = Inr []
   \<and> AnalyzeDirectory (sample_world\<lparr> tree := Dir ''logs'' [File ''notes.txt'', Dir ''old.log'' []] \<rparr>)
       early_readings ''logs'' (NewAnalyzer sample_config)
       (Some ErrNoLogFiles, NewAnalyzer sample_config)"
proof -
  have "findLogFiles (Dir ''logs'' [File ''notes.txt'', Dir ''old.log'' []]) ''logs'' = Inr []"
    by code_simp
  then have h: "findLogFiles (tree (sample_world\<lparr> tree := Dir ''logs'' [File ''notes.txt'', Dir ''old.log'' []] \<rparr>))
      ''logs'' = Inr []"
    by simp
  show ?thesis
    using h AnalyzeDirectory_no_files [OF h, of early_readings "NewAnalyzer sample_config" sample_config]
    by simp
qed

lemma sift_left_mset: "mset (sift_left lt x rs) = add_mset x (mset rs)"
  by (induction rs) simp_all

lemma sift_left_set: "set (sift_left lt x rs) = insert x (set rs)"
  by (induction rs) auto

lemma sift_left_descending:
  fixes k :: "'a \<Rightarrow> int"
  assumes "sorted_wrt (\<lambda>a b. k b \<le> k a) rs"
  shows "sorted_wrt (\<lambda>a b. k b \<le> k a) (sift_left (\<lambda>x y. k x < k y) x rs)"
  using assms
proof (induction rs)
  case Nil
  show ?case by simp
next
  case (Cons y rs)
  show ?case
  proof (cases "k x < k y")
    case True
    then show ?thesis
      using Cons by (auto simp: sift_left_set)
  next
    case False
    then show ?thesis
      using Cons.prems by auto
  qed
qed

lemma fold_sift_mset: "mset (fold (sift_left lt) xs acc) = mset xs + mset acc"
  by (induction xs arbitrary: acc) (simp_all add: sift_left_mset)

lemma fold_sift_descending:
  fixes k :: "'a \<Rightarrow> int"
  assumes "sorted_wrt (\<lambda>a b. k b \<le> k a) acc"
  shows "sorted_wrt (\<lambda>a b. k b \<le> k a) (fold (sift_left (\<lambda>x y. k x < k y)) xs acc)"
  using assms by (induction xs arbitrary: acc) (simp_all add: sift_left_descending)

lemma insertionSort_mset: "mset (insertionSort lt xs) = mset xs"
  by (simp add: insertionSort_def fold_sift_mset)

lemma insertionSort_sorted:
  fixes k :: "'a \<Rightarrow> int"
  shows "sorted (map k (insertionSort (\<lambda>x y. k x < k y) xs))"
proof -
  have "sorted_wrt (\<lambda>a b. k b \<le> k a) (fold (sift_left (\<lambda>x y. k x < k y)) xs [])"
    by (rule fold_sift_descending) simp
  then have "sorted_wrt (\<lambda>a b. k a \<le> k b) (rev (fold (sift_left (\<lambda>x y. k x < k y)) xs []))"
    by (simp add: sorted_wrt_rev)
  then show ?thesis
    by (simp add: insertionSort_def sorted_map)
qed

lemma fold_sift_sorted_id:
  fixes k :: "'a \<Rightarrow> int"
  assumes "sorted (map k (rev acc @ xs))"
  shows "fold (sift_left (\<lambda>x y. k x < k y)) xs acc = rev xs @ acc"
  using assms
proof (induction xs arbitrary: acc)
  case Nil
  show ?case by simp
next
  case (Cons x xs)
  have "sift_left (\<lambda>x y. k x < k y) x acc = x # acc"
  proof (cases acc)
    case Nil
    then show ?thesis by simp
  next
    case (Cons y ys)
    then have "k y \<le> k x"
      using Cons.prems by (simp add: sorted_append)
    then show ?thesis using Cons by simp
  qed
  moreover have "sorted (map k (rev (x # acc) @ xs))"
    using Cons.prems by simp
  ultimately show ?case
    using Cons.IH [of "x # acc"] by simp
qed

lemma insertionSort_sorted_id:
  fixes k :: "'a \<Rightarrow> int"
  assumes "sorted (map k xs)"
  shows "insertionSort (\<lambda>x y. k x < k y) xs = xs"
  using fold_sift_sorted_id [of k "[]" xs] assms by (simp add: insertionSort_def)

lemma sift_left_filter:
  fixes k :: "'a \<Rightarrow> int"
  shows "filter (\<lambda>e. k e = t) (sift_left (\<lambda>x y. k x < k y) x rs)
         = (if k x = t then [x] else []) @ filter (\<lambda>e. k e = t) rs"
  by (induction rs) auto

lemma fold_sift_filter:
  fixes k :: "'a \<Rightarrow> int"
  shows "filter (\<lambda>e. k e = t) (fold (sift_left (\<lambda>x y. k x < k y)) xs acc)
         = rev (filter (\<lambda>e. k e = t) xs) @ filter (\<lambda>e. k e = t) acc"
  by (induction xs arbitrary: acc) (simp_all add: sift_left_filter)

lemma insertionSort_stable:
  fixes k :: "'a \<Rightarrow> int"
  shows "filter (\<lambda>e. k e = t) (insertionSort (\<lambda>x y. k x < k y) xs) = filter (\<lambda>e. k e = t) xs"
  by (simp add: insertionSort_def fold_sift_filter flip: rev_filter)

lemma sorted_by_time:
  "sorted_wrt (\<lambda>x y. \<not> Before (Timestamp y) (Timestamp x)) es = sorted (map Timestamp es)"
  by (simp add: sorted_map Before_def not_less)

lemma sorted_by_less:
  "sorted_wrt (\<lambda>x y. \<not> Timestamp y < Timestamp x) es = sorted (map Timestamp es)"
  by (simp add: sorted_map not_less)

lemma Before_less: "(\<lambda>x y. Before (Timestamp x) (Timestamp y)) = (\<lambda>x y. Timestamp x < Timestamp y)"
  by (simp add: Before_def)

lemma SortByTime_outcome: "SortByTime a (sorted_outcome a)"
  by (simp add: SortByTime_def sort_Slice_def sorted_outcome_def sorted_by_time)

lemma SortByTime_facts:
  assumes "SortByTime a a'"
  shows "sorted (map Timestamp (entries a'))" and "mset (entries a') = mset (entries a)"
    and "stats a' = stats a"
    and "length (entries a) \<le> 12 \<Longrightarrow>
           filter (\<lambda>e. Timestamp e = t) (entries a') = filter (\<lambda>e. Timestamp e = t) (entries a)"
proof -
  show "stats a' = stats a" using assms by (simp add: SortByTime_def)
  show "sorted (map Timestamp (entries a'))"
    using assms
    by (auto simp: SortByTime_def sort_Slice_def sorted_by_less Before_less insertionSort_sorted
        split: if_splits)
  show "mset (entries a') = mset (entries a)"
    using assms
    by (auto simp: SortByTime_def sort_Slice_def insertionSort_mset split: if_splits)
  show "filter (\<lambda>e. Timestamp e = t) (entries a') = filter (\<lambda>e. Timestamp e = t) (entries a)"
    if "length (entries a) \<le> 12"
    using assms that
    by (simp add: SortByTime_def sort_Slice_def Before_less insertionSort_stable)
qed

lemma SortByTime_again:
  assumes "sorted (map Timestamp (entries a'))" "SortByTime a' a''"
  shows "entries a'' = entries a'"
  using assms
  by (auto simp: SortByTime_def sort_Slice_def sorted_by_less Before_less
      insertionSort_sorted_id split: if_splits)

text \<open>
  Claim C3, as the code has it.  \<open>SortByTime\<close> always has an outcome; every outcome
  holds the same entries, rearranged so that timestamps never decrease, and leaves the
  statistics alone; sorting an outcome again changes nothing; and as long as at most
  12 entries are held, entries with equal timestamps keep their relative order.  With
  more entries the order among equal timestamps need not be kept.
\<close>

theorem SortByTime_sorted:
  "(\<exists>a'. SortByTime a a')
   \<and> (\<forall>a'. SortByTime a a' \<longrightarrow>
         sorted (map Timestamp (entries a')) \<and> mset (entries a') = mset (entries a)
         \<and> stats a' = stats a
         \<and> (\<forall>a''. SortByTime a' a'' \<longrightarrow> entries a'' = entries a' \<and> stats a'' = stats a')
         \<and> (length (entries a) \<le> 12 \<longrightarrow>
              (\<forall>t. filter (\<lambda>e. Timestamp e = t) (entries a')
                    = filter (\<lambda>e. Timestamp e = t) (entries a))))"
proof -
  have ex: "\<exists>a'. SortByTime a a'"
    using SortByTime_outcome by blast
  have all: "sorted (map Timestamp (entries a')) \<and> mset (entries a') = mset (entries a)
         \<and> stats a' = stats a
         \<and> (\<forall>a''. SortByTime a' a'' \<longrightarrow> entries a'' = entries a' \<and> stats a'' = stats a')
         \<and> (length (entries a) \<le> 12 \<longrightarrow>
              (\<forall>t. filter (\<lambda>e. Timestamp e = t) (entries a')
                    = filter (\<lambda>e. Timestamp e = t) (entries a)))"
    if s: "SortByTime a a'" for a'
  proof -
    note f = SortByTime_facts [OF s]
    have again: "entries a'' = entries a' \<and> stats a'' = stats a'"
      if t: "SortByTime a' a''" for a''
      using SortByTime_again [OF f(1) t] SortByTime_facts(3) [OF t] by simp
    have stable: "filter (\<lambda>e. Timestamp e = t) (entries a')
                    = filter (\<lambda>e. Timestamp e = t) (entries a)"
      if "length (entries a) \<le> 12" for t
      using f(4) [OF that] .
    from f(1) f(2) f(3) again stable show ?thesis by blast
  qed
  from ex all show ?thesis by blast
qed

theorem SortByTime_sorted_witness:
  "SortByTime \<lparr> entries = [tick ''b'' 9, tick ''a'' 4, tick ''c'' 9], stats = NewStatistics \<rparr>
              \<lparr> entries = [tick ''a'' 4, tick ''b'' 9, tick ''c'' 9], stats = NewStatistics \<rparr>
   \<and> sorted (map Timestamp [tick ''a'' 4, tick ''b'' 9, tick ''c'' 9])"
proof -
  have h: "SortByTime
             \<lparr> entries = [tick ''b'' 9, tick ''a'' 4, tick ''c'' 9], stats = NewStatistics \<rparr>
             \<lparr> entries = [tick ''a'' 4, tick ''b'' 9, tick ''c'' 9], stats = NewStatistics \<rparr>"
    by (simp add: SortByTime_def sort_Slice_def insertionSort_def Before_def tick_def)
  from h SortByTime_sorted [of
     "\<lparr> entries = [tick ''b'' 9, tick ''a'' 4, tick ''c'' 9], stats = NewStatistics \<rparr>"]
  have "sorted (map Timestamp (entries
     \<lparr> entries = [tick ''a'' 4, tick ''b'' 9, tick ''c'' 9], stats = NewStatistics \<rparr>))"
    by blast
  with h show ?thesis by simp
qed

lemma thirteen_rearranged:
  "mset [e12, e6, e2, e3, e4, e5, e0, e7, e8, e9, e10, e11, e1]
   = mset [e0, e1, e2, e3, e4, e5, e6, e7, e8, e9, e10, e11, e12]"
  by (simp add: ac_simps)

text \<open>
  Stability fails from 13 entries on.  Take twelve entries with the same timestamp
  followed by one with an earlier timestamp.  The quicksort picks the entry at index 6
  as pivot and exchanges it with the first entry, exchanges the second entry with the
  last one, and puts the pivot at index 1; the insertion sort of the remaining eleven
  entries moves nothing.  The entries with equal timestamps have changed their order.
\<close>

theorem SortByTime_stable_counterexample:
  "SortByTime
     \<lparr> entries = [tick ''e0'' 1, tick ''e1'' 1, tick ''e2'' 1, tick ''e3'' 1, tick ''e4'' 1,
                  tick ''e5'' 1, tick ''e6'' 1, tick ''e7'' 1, tick ''e8'' 1, tick ''e9'' 1,
                  tick ''e10'' 1, tick ''e11'' 1, tick ''e12'' 0],
       stats = NewStatistics \<rparr>
     \<lparr> entries = [tick ''e12'' 0, tick ''e6'' 1, tick ''e2'' 1, tick ''e3'' 1, tick ''e4'' 1,
                  tick ''e5'' 1, tick ''e0'' 1, tick ''e7'' 1, tick ''e8'' 1, tick ''e9'' 1,
                  tick ''e10'' 1, tick ''e11'' 1, tick ''e1'' 1],
       stats = NewStatistics \<rparr>"
proof -
  let ?I = "[tick ''e0'' 1, tick ''e1'' 1, tick ''e2'' 1, tick ''e3'' 1, tick ''e4'' 1,
             tick ''e5'' 1, tick ''e6'' 1, tick ''e7'' 1, tick ''e8'' 1, tick ''e9'' 1,
             tick ''e10'' 1, tick ''e11'' 1, tick ''e12'' 0]"
  let ?O = "[tick ''e12'' 0, tick ''e6'' 1, tick ''e2'' 1, tick ''e3'' 1, tick ''e4'' 1,
             tick ''e5'' 1, tick ''e0'' 1, tick ''e7'' 1, tick ''e8'' 1, tick ''e9'' 1,
             tick ''e10'' 1, tick ''e11'' 1, tick ''e1'' 1]"
  have ts: "Timestamp (tick m t) = t" for m t
    by (simp add: tick_def)
  have len: "\<not> length ?I \<le> 12"
    by simp
  have m: "mset ?O = mset ?I"
    by (rule thirteen_rearranged)
  have s_in: "\<not> sorted_wrt (\<lambda>x y. \<not> Before (Timestamp y) (Timestamp x)) ?I"
    by (simp add: sorted_by_time ts)
  have s_out: "sorted_wrt (\<lambda>x y. \<not> Before (Timestamp y) (Timestamp x)) ?O"
    by (simp add: sorted_by_time ts)
  have "sort_Slice (\<lambda>x y. Before (Timestamp x) (Timestamp y)) ?I ?O"
    unfolding sort_Slice_def by (simp only: len m s_in s_out if_False simp_thms)
  then show ?thesis
    by (simp add: SortByTime_def)
qed

section \<open>Properties of the watcher\<close>

lemma Watch_start_position:
  "Watch_start (NewWatcher cfg) f = Inr w
   \<Longrightarrow> position w = lastOffset w \<and> 0 \<le> lastOffset w"
  by (auto simp: Watch_start_def NewWatcher_def split: if_splits)

lemma scan_acc_taken:
  "snd (scan_acc start cur data) \<le> start + length cur + length data"
proof (induction data arbitrary: start cur)
  case Nil
  show ?case by simp
next
  case (Cons c cs)
  show ?case
  proof (cases "c = CHR 0x0A")
    case True
    then show ?thesis
      using Cons [of "start + length cur + 1" "[]"]
      by (simp add: split_beta)
  next
    case False
    then show ?thesis
      using Cons [of start "cur @ [c]"] by simp
  qed
qed

lemma scan_acc_short:
  "length cur + length data < MaxScanTokenSize
   \<Longrightarrow> snd (scan_acc start cur data) = start + length cur + length data"
proof (induction data arbitrary: start cur)
  case Nil
  show ?case by simp
next
  case (Cons c cs)
  show ?case
  proof (cases "c = CHR 0x0A")
    case True
    then show ?thesis
      using Cons.IH [of "[]" "start + length cur + 1"] Cons.prems
      by (simp add: split_beta)
  next
    case False
    then show ?thesis
      using Cons.IH [of "cur @ [c]" start] Cons.prems by simp
  qed
qed

lemma scan_acc_long:
  "CHR 0x0A \<notin> set data \<Longrightarrow> length cur < MaxScanTokenSize
   \<Longrightarrow> MaxScanTokenSize \<le> length cur + length data
   \<Longrightarrow> scan_acc start cur data = ([], start + MaxScanTokenSize)"
proof (induction data arbitrary: cur)
  case Nil
  then show ?case by simp
next
  case (Cons c cs)
  have c: "c \<noteq> CHR 0x0A" using Cons.prems(1) by auto
  show ?case
  proof (cases "MaxScanTokenSize \<le> length cur + 1")
    case True
    then show ?thesis using c by simp
  next
    case False
    then show ?thesis
      using Cons.IH [of "cur @ [c]"] Cons.prems c by simp
  qed
qed

lemma Scan_taken: "snd (Scan data) \<le> length data"
  using scan_acc_taken [of 0 "[]" data] by (simp add: Scan_def)

lemma Scan_short: "length data < MaxScanTokenSize \<Longrightarrow> snd (Scan data) = length data"
  using scan_acc_short [of "[]" data 0] by (simp add: Scan_def)

lemma Scan_long:
  "CHR 0x0A \<notin> set data \<Longrightarrow> MaxScanTokenSize \<le> length data
   \<Longrightarrow> Scan data = ([], MaxScanTokenSize)"
  using scan_acc_long [of data "[]" 0] by (simp add: Scan_def MaxScanTokenSize_def)

text \<open>
  Claim C6, as the code has it.  On a step in which \<open>Stat\<close> succeeds: if the file is
  now smaller than \<open>lastOffset\<close>, the offset is reset and reading restarts at byte 0 of
  the file; otherwise reading continues where the file handle stands, and that is
  \<open>lastOffset\<close> when the handle stood there before the step; afterwards
  \<open>lastOffset\<close> is the current size, whatever was read.  \<open>Watch\<close> enters the loop with
  the handle at \<open>lastOffset\<close>, and a step keeps the handle at \<open>lastOffset\<close> when its
  scan runs to the end of the file, which it does unless a line reaches the scanner's
  limit of 65536 bytes.
\<close>

theorem readNewLines_offset:
  assumes "stat_ok f" and "readNewLines w lb now f = (w', r, shown)"
  shows "(int (length (bytes f)) < lastOffset w \<longrightarrow>
            r = Some (0, take (snd (Scan (bytes f))) (bytes f)))
       \<and> (\<not> int (length (bytes f)) < lastOffset w \<longrightarrow>
            r = Some (position w,
                      take (snd (Scan (drop (nat (position w)) (bytes f))))
                        (drop (nat (position w)) (bytes f))))
       \<and> (\<not> int (length (bytes f)) < lastOffset w \<and> position w = lastOffset w \<longrightarrow>
            r = Some (lastOffset w,
                      take (snd (Scan (drop (nat (lastOffset w)) (bytes f))))
                        (drop (nat (lastOffset w)) (bytes f))))
       \<and> lastOffset w' = int (length (bytes f))
       \<and> (int (length (bytes f)) < lastOffset w
            \<and> snd (Scan (bytes f)) = length (bytes f) \<longrightarrow> position w' = lastOffset w')
       \<and> (\<not> int (length (bytes f)) < lastOffset w \<and> position w = lastOffset w
            \<and> 0 \<le> lastOffset w
            \<and> snd (Scan (drop (nat (lastOffset w)) (bytes f)))
                = length (drop (nat (lastOffset w)) (bytes f))
            \<longrightarrow> position w' = lastOffset w')"
proof (cases "int (length (bytes f)) < lastOffset w")
  case True
  then show ?thesis
    using assms by (auto simp: readNewLines_def Let_def split_beta)
next
  case False
  then show ?thesis
    using assms by (auto simp: readNewLines_def Let_def split_beta)
qed

theorem readNewLines_offset_witness:
  "fst (snd (readNewLines
       \<lparr> wconfig = \<lparr> FilePath = ''app.log'', w_Pattern = [], MinLevel = UNKNOWN,
                     Interval = 1, ShowAll = False \<rparr>,
         lastOffset = 500, position = 500 \<rparr>
       sample_library 7
       \<lparr> bytes = replicate 49 CHR ''x'' @ [CHR 0x0A], stat_ok = True \<rparr>))
     = Some (0, replicate 49 CHR ''x'' @ [CHR 0x0A])
   \<and> lastOffset (fst (readNewLines
       \<lparr> wconfig = \<lparr> FilePath = ''app.log'', w_Pattern = [], MinLevel = UNKNOWN,
                     Interval = 1, ShowAll = False \<rparr>,
         lastOffset = 500, position = 500 \<rparr>
       sample_library 7
       \<lparr> bytes = replicate 49 CHR ''x'' @ [CHR 0x0A], stat_ok = True \<rparr>)) = 50"
proof -
  let ?w = "\<lparr> wconfig = \<lparr> FilePath = ''app.log'', w_Pattern = [], MinLevel = UNKNOWN,
                 Interval = 1, ShowAll = False \<rparr>, lastOffset = 500, position = 500 \<rparr>"
  let ?f = "\<lparr> bytes = replicate 49 CHR ''x'' @ [CHR 0x0A], stat_ok = True \<rparr>"
  let ?R = "readNewLines ?w sample_library 7 ?f"
  have run: "?R = (fst ?R, fst (snd ?R), snd (snd ?R))"
    by simp
  have h: "stat_ok ?f"
    by simp
  have sc: "snd (Scan (bytes ?f)) = length (bytes ?f)"
    by (rule Scan_short) (simp add: MaxScanTokenSize_def)
  from readNewLines_offset [OF h run] sc
  show ?thesis by simp
qed

text \<open>
  After a line of 70000 bytes the scanner has stopped 65536 bytes into the file, while
  \<open>lastOffset\<close> has become 70000.  The next step finds the size unchanged and reads on
  from byte 65536, not from the last offset.
\<close>

theorem readNewLines_offset_counterexample:
  "lastOffset (fst (readNewLines
       \<lparr> wconfig = \<lparr> FilePath = ''app.log'', w_Pattern = [], MinLevel = UNKNOWN,
                     Interval = 1, ShowAll = True \<rparr>,
         lastOffset = 0, position = 0 \<rparr>
       sample_library 7 \<lparr> bytes = replicate 70000 CHR ''x'', stat_ok = True \<rparr>)) = 70000
   \<and> fst (the (fst (snd (readNewLines
       (fst (readNewLines
          \<lparr> wconfig = \<lparr> FilePath = ''app.log'', w_Pattern = [], MinLevel = UNKNOWN,
                        Interval = 1, ShowAll = True \<rparr>,
            lastOffset = 0, position = 0 \<rparr>
          sample_library 7 \<lparr> bytes = replicate 70000 CHR ''x'', stat_ok = True \<rparr>))
       sample_library 7 \<lparr> bytes = replicate 70000 CHR ''x'', stat_ok = True \<rparr>)))) = 65536"
proof -
  let ?w = "\<lparr> wconfig = \<lparr> FilePath = ''app.log'', w_Pattern = [], MinLevel = UNKNOWN,
                 Interval = 1, ShowAll = True \<rparr>, lastOffset = 0, position = 0 \<rparr>"
  let ?f = "\<lparr> bytes = replicate 70000 CHR ''x'', stat_ok = True \<rparr>"
  have sc: "Scan (replicate 70000 CHR ''x'') = ([], MaxScanTokenSize)"
    by (rule Scan_long) (simp_all add: MaxScanTokenSize_def)
  have w1: "fst (readNewLines ?w sample_library 7 ?f)
            = ?w\<lparr> lastOffset := 70000, position := 65536 \<rparr>"
    by (simp add: readNewLines_def Let_def sc MaxScanTokenSize_def List.map_filter_simps)
  have "fst (the (fst (snd (readNewLines (?w\<lparr> lastOffset := 70000, position := 65536 \<rparr>)
           sample_library 7 ?f)))) = 65536"
    by (simp add: readNewLines_def Let_def split_beta)
  with w1 show ?thesis by simp
qed

end
